theory Spec2Isabelle
  imports Main "HOL-Library.Char_ord" "HOL-Library.List_Lexorder"
begin

section \<open>Python values used by generate\_docs.py\<close>

text \<open>
  The documentation generator is a Python script. Strings are modelled as \<open>string\<close>
  (lists of characters; a character is one of the code points \<open>0..255\<close> of a Python
  string), Python integers as \<open>int\<close>, exceptions as values of \<open>py_error\<close> carried in
  the left summand of a sum type.
\<close>

datatype py_error =
    ValueError | IndexError | FileNotFoundError | RuntimeError | ReError | OSError

text \<open>\<^verbatim>\<open>s.startswith(p)\<close> and \<^verbatim>\<open>s.endswith(p)\<close>.\<close>

fun startswith :: "string \<Rightarrow> string \<Rightarrow> bool" where
  "startswith s [] = True"
| "startswith [] (p # ps) = False"
| "startswith (c # cs) (p # ps) = (c = p \<and> startswith cs ps)"

definition endswith :: "string \<Rightarrow> string \<Rightarrow> bool" where
  "endswith s p = startswith (rev s) (rev p)"

text \<open>\<^verbatim>\<open>s.find(sub)\<close>: the index of the first occurrence, \<open>-1\<close> when there is none.\<close>

fun find :: "string \<Rightarrow> string \<Rightarrow> int" where
  "find [] sub = (if sub = [] then 0 else -1)"
| "find (c # cs) sub =
     (if startswith (c # cs) sub then 0
      else (let r = find cs sub in if r < 0 then -1 else r + 1))"

text \<open>\<^verbatim>\<open>sub in s\<close>.\<close>

fun contains :: "string \<Rightarrow> string \<Rightarrow> bool" where
  "contains [] sub = (sub = [])"
| "contains (c # cs) sub = (startswith (c # cs) sub \<or> contains cs sub)"

text \<open>\<^verbatim>\<open>s.rfind(c)\<close> for a single character: the last index, \<open>-1\<close> when absent.\<close>

fun rfind_char :: "string \<Rightarrow> char \<Rightarrow> int" where
  "rfind_char [] c = -1"
| "rfind_char (x # xs) c =
     (let r = rfind_char xs c in
      if r \<ge> 0 then r + 1 else if x = c then 0 else -1)"

text \<open>
  \<^verbatim>\<open>s.replace(old, new)\<close>: occurrences are replaced from the left and do not overlap.
  The counter is the number of characters of the current occurrence still to be skipped.
  With an empty \<open>old\<close> Python puts \<open>new\<close> before every character and at the end.
\<close>

fun replace_from :: "string \<Rightarrow> string \<Rightarrow> nat \<Rightarrow> string \<Rightarrow> string" where
  "replace_from old new k [] = []"
| "replace_from old new (Suc k) (c # cs) = replace_from old new k cs"
| "replace_from old new 0 (c # cs) =
     (if startswith (c # cs) old then new @ replace_from old new (length old - 1) cs
      else c # replace_from old new 0 cs)"

definition replace :: "string \<Rightarrow> string \<Rightarrow> string \<Rightarrow> string" where
  "replace s old new =
     (if old = [] then concat (map (\<lambda>c. new @ [c]) s) @ new
      else replace_from old new 0 s)"

text \<open>\<^verbatim>\<open>s.count(sub)\<close>: the number of non-overlapping occurrences.\<close>

fun count_from :: "string \<Rightarrow> nat \<Rightarrow> string \<Rightarrow> int" where
  "count_from sub k [] = 0"
| "count_from sub (Suc k) (c # cs) = count_from sub k cs"
| "count_from sub 0 (c # cs) =
     (if startswith (c # cs) sub then 1 + count_from sub (length sub - 1) cs
      else count_from sub 0 cs)"

definition count :: "string \<Rightarrow> string \<Rightarrow> int" where
  "count s sub = (if sub = [] then int (length s) + 1 else count_from sub 0 s)"

text \<open>
  Whitespace as \<^verbatim>\<open>str.isspace\<close>, \<^verbatim>\<open>str.strip\<close>, \<^verbatim>\<open>str.split\<close> and the class \<^verbatim>\<open>\s\<close> of
  \<^verbatim>\<open>re\<close> see it among the code points \<open>0..255\<close>: tab, line feed, vertical tab, form
  feed, carriage return, the four separators \<open>0x1C..0x1F\<close>, the space, the next-line
  control \<open>0x85\<close> and the no-break space \<open>0xA0\<close>.
\<close>

definition isspace :: "char \<Rightarrow> bool" where
  "isspace c = (c \<in> set [CHR 0x09, CHR 0x0A, CHR 0x0B, CHR 0x0C, CHR 0x0D,
                           CHR 0x1C, CHR 0x1D, CHR 0x1E, CHR 0x1F, CHR 0x20,
                           CHR 0x85, CHR 0xA0])"

definition lstrip :: "string \<Rightarrow> string" where
  "lstrip s = dropWhile isspace s"

definition rstrip :: "string \<Rightarrow> string" where
  "rstrip s = rev (dropWhile isspace (rev s))"

definition strip :: "string \<Rightarrow> string" where
  "strip s = lstrip (rstrip s)"

text \<open>\<^verbatim>\<open>s.lstrip(chars)\<close>, \<^verbatim>\<open>s.rstrip(chars)\<close> and \<^verbatim>\<open>s.strip(chars)\<close>.\<close>

definition lstrip_chars :: "string \<Rightarrow> string \<Rightarrow> string" where
  "lstrip_chars s chars = dropWhile (\<lambda>c. c \<in> set chars) s"

definition rstrip_chars :: "string \<Rightarrow> string \<Rightarrow> string" where
  "rstrip_chars s chars = rev (dropWhile (\<lambda>c. c \<in> set chars) (rev s))"

text \<open>\<^verbatim>\<open>sep.join(xs)\<close>.\<close>

fun join :: "string \<Rightarrow> string list \<Rightarrow> string" where
  "join sep [] = []"
| "join sep [x] = x"
| "join sep (x # y # ys) = x @ sep @ join sep (y # ys)"

text \<open>\<^verbatim>\<open>s.split(c)\<close> for a single separator character: never an empty list.\<close>

fun split_char :: "char \<Rightarrow> string \<Rightarrow> string list" where
  "split_char sep [] = [[]]"
| "split_char sep (c # cs) =
     (case split_char sep cs of
        [] \<Rightarrow> (if c = sep then [[], []] else [[c]])
      | w # ws \<Rightarrow> (if c = sep then [] # w # ws else (c # w) # ws))"

text \<open>
  \<^verbatim>\<open>s.split(None, 1)\<close>: leading whitespace is dropped, the first word ends at the next
  whitespace, and what follows that run of whitespace is the second item, if not empty.
\<close>

definition split_ws1 :: "string \<Rightarrow> string list" where
  "split_ws1 s =
     (let t = lstrip s in
      if t = [] then []
      else (let w = takeWhile (\<lambda>c. \<not> isspace c) t;
                r = lstrip (dropWhile (\<lambda>c. \<not> isspace c) t)
            in if r = [] then [w] else [w, r]))"

section \<open>Regular expressions (the part of Python's re that the script uses)\<close>

text \<open>
  A class of characters: \<open>.\<close> under \<^verbatim>\<open>DOTALL\<close>, \<open>.\<close> without it, \<open>\s\<close>, \<open>\d\<close>, a set
  \<open>[...]\<close> and a complemented set \<open>[^...]\<close>.
\<close>

datatype cset = AnyChar | NotNewline | Space | Digit | OneOf string | NoneOf string

fun in_cset :: "cset \<Rightarrow> char \<Rightarrow> bool" where
  "in_cset AnyChar c = True"
| "in_cset NotNewline c = (c \<noteq> CHR ''\<newline>'')"
| "in_cset Space c = isspace c"
| "in_cset Digit c = (c \<in> set ''0123456789'')"
| "in_cset (OneOf cs) c = (c \<in> set cs)"
| "in_cset (NoneOf cs) c = (c \<notin> set cs)"

text \<open>
  Patterns. The flags of a call are part of the pattern: \<open>Bol\<close> and \<open>Eol\<close> are \<open>^\<close> and
  \<open>$\<close> under \<^verbatim>\<open>MULTILINE\<close>, \<open>EolS\<close> is \<open>$\<close> without it (the end, or before a line feed
  that ends the string), \<open>EndZ\<close> is \<open>\Z\<close>. Every repetition of the script's patterns
  is over a class of characters: \<open>Rep c n g\<close> is at least \<open>n\<close> characters of \<open>c\<close>,
  greedy when \<open>g\<close> holds and lazy otherwise. \<open>Ahead\<close> is the lookahead \<open>(?=...)\<close>.
\<close>

datatype rx =
    Chars cset
  | Lit string
  | Rep cset nat bool
  | Seq rx rx
  | Alt rx rx
  | Group nat rx
  | Bol | Eol | EolS | EndZ
  | Ahead rx

fun seq :: "rx list \<Rightarrow> rx" where
  "seq [] = Lit []"
| "seq [r] = r"
| "seq (r # rs) = Seq r (seq rs)"

text \<open>
  The state of a match: the text before the position (last character first), the text
  from the position on, and the groups captured so far.
\<close>

record mstate =
  consumed :: string
  rest :: string
  groups :: "(nat \<times> string) list"

text \<open>
  Backtracking, with the rest of the pattern as a continuation \<open>k\<close>. A greedy
  repetition takes a character first and gives it back when the continuation fails; a
  lazy one tries the continuation first.
\<close>

fun rep_greedy :: "cset \<Rightarrow> nat \<Rightarrow> (string \<Rightarrow> string \<Rightarrow> mstate option) \<Rightarrow> string \<Rightarrow> string \<Rightarrow> mstate option" where
  "rep_greedy c n k bef [] = (if n = 0 then k bef [] else None)"
| "rep_greedy c n k bef (x # xs) =
     (if in_cset c x then
        (case rep_greedy c (n - 1) k (x # bef) xs of
           Some r \<Rightarrow> Some r
         | None \<Rightarrow> (if n = 0 then k bef (x # xs) else None))
      else if n = 0 then k bef (x # xs) else None)"

fun rep_lazy :: "cset \<Rightarrow> nat \<Rightarrow> (string \<Rightarrow> string \<Rightarrow> mstate option) \<Rightarrow> string \<Rightarrow> string \<Rightarrow> mstate option" where
  "rep_lazy c n k bef [] = (if n = 0 then k bef [] else None)"
| "rep_lazy c n k bef (x # xs) =
     (if n = 0 then
        (case k bef (x # xs) of
           Some r \<Rightarrow> Some r
         | None \<Rightarrow> (if in_cset c x then rep_lazy c 0 k (x # bef) xs else None))
      else if in_cset c x then rep_lazy c (n - 1) k (x # bef) xs else None)"

primrec rx_match :: "rx \<Rightarrow> (mstate \<Rightarrow> mstate option) \<Rightarrow> mstate \<Rightarrow> mstate option" where
  "rx_match (Chars c) =
     (\<lambda>k s. case rest s of
               [] \<Rightarrow> None
             | x # xs \<Rightarrow> if in_cset c x then k (s\<lparr>consumed := x # consumed s, rest := xs\<rparr>) else None)"
| "rx_match (Lit t) =
     (\<lambda>k s. if startswith (rest s) t
            then k (s\<lparr>consumed := rev t @ consumed s, rest := drop (length t) (rest s)\<rparr>)
            else None)"
| "rx_match (Rep c n g) =
     (\<lambda>k s. (if g then rep_greedy else rep_lazy) c n
               (\<lambda>b r. k (s\<lparr>consumed := b, rest := r\<rparr>)) (consumed s) (rest s))"
| "rx_match (Seq a b) = (\<lambda>k. rx_match a (rx_match b k))"
| "rx_match (Alt a b) =
     (\<lambda>k s. case rx_match a k s of Some r \<Rightarrow> Some r | None \<Rightarrow> rx_match b k s)"
| "rx_match (Group i a) =
     (\<lambda>k s. rx_match a
               (\<lambda>s'. k (s'\<lparr>groups := (i, take (length (rest s) - length (rest s')) (rest s))
                                        # groups s'\<rparr>)) s)"
| "rx_match Bol =
     (\<lambda>k s. if consumed s = [] \<or> hd (consumed s) = CHR ''\<newline>'' then k s else None)"
| "rx_match Eol =
     (\<lambda>k s. if rest s = [] \<or> hd (rest s) = CHR ''\<newline>'' then k s else None)"
| "rx_match EolS =
     (\<lambda>k s. if rest s = [] \<or> rest s = ''\<newline>'' then k s else None)"
| "rx_match EndZ = (\<lambda>k s. if rest s = [] then k s else None)"
| "rx_match (Ahead a) =
     (\<lambda>k s. case rx_match a Some s of
               None \<Rightarrow> None
             | Some s' \<Rightarrow> k (s\<lparr>groups := groups s'\<rparr>))"

text \<open>A match object: \<^verbatim>\<open>group(0)\<close>, the captured groups, and the text after the match.\<close>

record rmatch =
  whole :: string
  grps :: "(nat \<times> string) list"
  after :: string

definition group :: "rmatch \<Rightarrow> nat \<Rightarrow> string" where
  "group mt i = (if i = 0 then whole mt else case map_of (grps mt) i of None \<Rightarrow> [] | Some t \<Rightarrow> t)"

definition match_here :: "rx \<Rightarrow> string \<Rightarrow> string \<Rightarrow> rmatch option" where
  "match_here r bef rst =
     (case rx_match r Some \<lparr>consumed = bef, rest = rst, groups = []\<rparr> of
        None \<Rightarrow> None
      | Some e \<Rightarrow> Some \<lparr>whole = take (length rst - length (rest e)) rst,
                        grps = groups e, after = rest e\<rparr>)"

text \<open>\<^verbatim>\<open>re.search\<close>: the first position, from the left, where the pattern matches.\<close>

fun search_from :: "rx \<Rightarrow> string \<Rightarrow> string \<Rightarrow> rmatch option" where
  "search_from r bef [] = match_here r bef []"
| "search_from r bef (x # xs) =
     (case match_here r bef (x # xs) of
        Some mt \<Rightarrow> Some mt
      | None \<Rightarrow> search_from r (x # bef) xs)"

definition re_search :: "rx \<Rightarrow> string \<Rightarrow> rmatch option" where
  "re_search r s = search_from r [] s"

text \<open>
  \<^verbatim>\<open>re.sub(pattern, function, string)\<close>: the matches from the left, without overlap, each
  replaced by what the function returns for it; an exception of the function ends the
  call. The counter is the number of characters of the current match still to be
  skipped. (The patterns this is used with match no empty text; an empty match is
  replaced and the scan moves on by one character.)
\<close>

fun sub_from :: "rx \<Rightarrow> (rmatch \<Rightarrow> py_error + string) \<Rightarrow> nat \<Rightarrow> string \<Rightarrow> string \<Rightarrow> py_error + string" where
  "sub_from r f k bef [] =
     (if k = 0 then (case match_here r bef [] of None \<Rightarrow> Inr [] | Some mt \<Rightarrow> f mt)
      else Inr [])"
| "sub_from r f (Suc k) bef (x # xs) = sub_from r f k (x # bef) xs"
| "sub_from r f 0 bef (x # xs) =
     (case match_here r bef (x # xs) of
        None \<Rightarrow> map_sum id ((#) x) (sub_from r f 0 (x # bef) xs)
      | Some mt \<Rightarrow>
          (case f mt of
             Inl e \<Rightarrow> Inl e
           | Inr t \<Rightarrow>
               (if whole mt = [] then map_sum id (\<lambda>u. t @ x # u) (sub_from r f 0 (x # bef) xs)
                else map_sum id ((@) t) (sub_from r f (length (whole mt) - 1) (x # bef) xs))))"

definition re_sub :: "rx \<Rightarrow> (rmatch \<Rightarrow> py_error + string) \<Rightarrow> string \<Rightarrow> py_error + string" where
  "re_sub r f s = sub_from r f 0 [] s"

text \<open>
  \<^verbatim>\<open>re.sub(pattern, template, string)\<close> with a string as replacement. A template without
  a backslash is literal text. One with a backslash holds escapes or group references;
  their expansion is not part of this model and is the parameter \<open>esc\<close> (from the
  template and the string to the result, or the \<^verbatim>\<open>re.error\<close>).
\<close>

definition re_sub_template ::
  "(string \<Rightarrow> string \<Rightarrow> py_error + string) \<Rightarrow> rx \<Rightarrow> string \<Rightarrow> string \<Rightarrow> py_error + string" where
  "re_sub_template esc r template s =
     (if CHR 0x5C \<in> set template then esc template s
      else re_sub r (\<lambda>mt. Inr template) s)"

text \<open>\<^verbatim>\<open>re.findall\<close> for a pattern with one group: the text of group 1 of every match.\<close>

fun findall_from :: "rx \<Rightarrow> nat \<Rightarrow> string \<Rightarrow> string \<Rightarrow> string list" where
  "findall_from r k bef [] =
     (if k = 0 then (case match_here r bef [] of None \<Rightarrow> [] | Some mt \<Rightarrow> [group mt 1])
      else [])"
| "findall_from r (Suc k) bef (x # xs) = findall_from r k (x # bef) xs"
| "findall_from r 0 bef (x # xs) =
     (case match_here r bef (x # xs) of
        None \<Rightarrow> findall_from r 0 (x # bef) xs
      | Some mt \<Rightarrow> group mt 1 # findall_from r (length (whole mt) - 1) (x # bef) xs)"

definition re_findall :: "rx \<Rightarrow> string \<Rightarrow> string list" where
  "re_findall r s = findall_from r 0 [] s"

text \<open>
  The words a pattern can consume, whatever the context: the anchors and the lookahead
  consume nothing. Used to state what a successful match has consumed.
\<close>

fun lang :: "rx \<Rightarrow> string set" where
  "lang (Chars c) = {[x] |x. in_cset c x}"
| "lang (Lit t) = {t}"
| "lang (Rep c n g) = {w. n \<le> length w \<and> (\<forall>x \<in> set w. in_cset c x)}"
| "lang (Seq a b) = {u @ v |u v. u \<in> lang a \<and> v \<in> lang b}"
| "lang (Alt a b) = lang a \<union> lang b"
| "lang (Group i a) = lang a"
| "lang Bol = {[]}"
| "lang Eol = {[]}"
| "lang EolS = {[]}"
| "lang EndZ = {[]}"
| "lang (Ahead a) = {[]}"

section \<open>Paths (pathlib)\<close>

text \<open>
  A \<^verbatim>\<open>pathlib.Path\<close> is modelled by the list of its components below a common anchor
  (all paths of a run are absolute paths of one file system). The empty list is the
  anchor itself, or \<^verbatim>\<open>Path('.')\<close> for a relative path.
\<close>

type_synonym path = "string list"

text \<open>\<^verbatim>\<open>p.name\<close> and \<^verbatim>\<open>p.parent\<close>.\<close>

definition name :: "path \<Rightarrow> string" where
  "name p = (if p = [] then [] else last p)"

definition parent :: "path \<Rightarrow> path" where
  "parent p = butlast p"

text \<open>\<^verbatim>\<open>p.parents\<close> of a relative path: every proper ancestor, down to \<^verbatim>\<open>Path('.')\<close>.\<close>

definition parents :: "path \<Rightarrow> path list" where
  "parents p = map (\<lambda>k. take k p) (rev [0..<length p])"

text \<open>
  \<^verbatim>\<open>p.suffix\<close> (CPython 3.8 to 3.12): with \<open>i = name.rfind('.')\<close>, the suffix is
  \<open>name[i:]\<close> when \<open>0 < i < len(name) - 1\<close> and the empty string otherwise.
\<close>

definition suffix :: "path \<Rightarrow> string" where
  "suffix p =
     (let nm = name p; i = rfind_char nm (CHR ''.'') in
      if 0 < i \<and> i < int (length nm) - 1 then drop (nat i) nm else [])"

text \<open>
  \<^verbatim>\<open>p.with_suffix(suffix)\<close>: refuses a suffix with a separator, a non-empty suffix that
  does not start with a dot, the suffix \<open>'.'\<close>, and a path with an empty name; the old
  suffix, if any, is cut off the name and the new one appended.
\<close>

definition with_suffix :: "path \<Rightarrow> string \<Rightarrow> py_error + path" where
  "with_suffix p suf =
     (if CHR ''/'' \<in> set suf then Inl ValueError
      else if (suf \<noteq> [] \<and> \<not> startswith suf ''.'') \<or> suf = ''.'' then Inl ValueError
      else if name p = [] then Inl ValueError
      else (let old_suffix = suffix p;
                nm = (if old_suffix = [] then name p @ suf
                      else take (length (name p) - length old_suffix) (name p) @ suf)
            in Inr (butlast p @ [nm])))"

text \<open>\<^verbatim>\<open>p.relative_to(other)\<close>: \<open>ValueError\<close> unless \<open>other\<close> is an ancestor of \<open>p\<close> or \<open>p\<close>.\<close>

definition relative_to :: "path \<Rightarrow> path \<Rightarrow> py_error + path" where
  "relative_to p other =
     (if take (length other) p = other then Inr (drop (length other) p)
      else Inl ValueError)"

section \<open>Files on disk\<close>

text \<open>
  The content of the regular files, by path. Reading a path that holds no file raises
  \<^verbatim>\<open>FileNotFoundError\<close>; writing replaces the content.
\<close>

type_synonym store = "path \<rightharpoonup> string"

definition read_text :: "store \<Rightarrow> path \<Rightarrow> py_error + string" where
  "read_text st p = (case st p of None \<Rightarrow> Inl FileNotFoundError | Some c \<Rightarrow> Inr c)"

definition write_text :: "store \<Rightarrow> path \<Rightarrow> string \<Rightarrow> store" where
  "write_text st p c = st(p \<mapsto> c)"

section \<open>AssetPathResolver: calculate\_asset\_prefix\<close>

definition calculate_asset_prefix :: "path \<Rightarrow> path \<Rightarrow> string" where
  "calculate_asset_prefix output_html_path docs_dir =
     (if name output_html_path = ''index.html'' \<and> parent output_html_path = docs_dir
      then ''.''
      else (case relative_to output_html_path docs_dir of
              Inl e \<Rightarrow> ''.''
            | Inr rel \<Rightarrow>
                (let depth = int (length (parents rel)) - 1 in
                 if depth \<le> 0 then ''.''
                 else join ''/'' (replicate (nat depth) ''..''))))"

section \<open>DirectoryTreeParser: the loop of convert\_directory\_tree\_to\_html\<close>

text \<open>
  The state of the loop over the lines of the tree text: the stack of directory names,
  the indent level of the line before, and the items emitted so far.
\<close>

record tree_state =
  path_stack :: "string list"
  prev_indent :: int
  html_structure :: "string list"

text \<open>
  The indent level of a line. The string literals are those of the source file: three
  spaces for the test and the count, four spaces and twice a single space in the
  \<^verbatim>\<open>elif\<close>.
\<close>

definition indent_level_of :: "string \<Rightarrow> int" where
  "indent_level_of line =
     (if contains line ''   '' then count line ''   ''
      else if contains line ''    '' \<and> (contains line '' '' \<or> contains line '' '')
      then (let spaces_before_item = int (length line) - int (length (lstrip_chars line '' ''))
            in spaces_before_item div 4)
      else 0)"

text \<open>The line without the tree symbols: three calls of \<^verbatim>\<open>replace\<close>, literals as in the source.\<close>

definition clean_line_of :: "string \<Rightarrow> string" where
  "clean_line_of line = replace (replace (replace line '' '' []) '' '' []) ''   '' []"

text \<open>\<^verbatim>\<open>for _ in range(n): if path_stack: path_stack.pop()\<close>\<close>

fun pop_n :: "nat \<Rightarrow> string list \<Rightarrow> string list" where
  "pop_n 0 stack = stack"
| "pop_n (Suc n) stack = pop_n n (if stack \<noteq> [] then butlast stack else stack)"

text \<open>
  One line of the tree text. \<^verbatim>\<open>parts[0]\<close> and \<^verbatim>\<open>path_stack[indent_level-1]\<close> raise
  \<^verbatim>\<open>IndexError\<close> out of range.
\<close>

definition tree_line :: "string \<Rightarrow> tree_state \<Rightarrow> py_error + tree_state" where
  "tree_line line s =
     (if strip line = [] then Inr s
      else
        (let indent_level = indent_level_of line;
             clean_line = clean_line_of line;
             parts = split_ws1 (strip clean_line)
         in case parts of
              [] \<Rightarrow> Inl IndexError
            | path # others \<Rightarrow>
                (let description = (if length parts > 1 then parts ! 1 else []);
                     is_dir = endswith path ''/'';
                     stack1 =
                       (if indent_level > prev_indent s then
                          (if path_stack s \<noteq> [] \<and> prev_indent s \<ge> 0
                           then path_stack s @ [last (path_stack s)] else path_stack s)
                        else if indent_level < prev_indent s
                        then pop_n (nat (prev_indent s - indent_level)) (path_stack s)
                        else path_stack s);
                     indent = concat (replicate (nat indent_level) ''  '');
                     item_html = indent @ ''* ''
                 in if is_dir then
                      (let dir_name = rstrip_chars path ''/'';
                           item =
                             (if dir_name = ''basilisk/src''
                              then item_html @ ''**'' @ path @ ''** - '' @ description
                              else item_html @ ''**['' @ path @ '']('' @ dir_name @ '')** - ''
                                   @ description);
                           stack2 =
                             (if int (length stack1) \<le> indent_level then stack1 @ [dir_name]
                              else stack1[nat indent_level := dir_name])
                       in Inr \<lparr>path_stack = stack2, prev_indent = indent_level,
                               html_structure = html_structure s @ [item]\<rparr>)
                    else if indent_level > 0 \<and> stack1 \<noteq> []
                            \<and> \<not> nat (indent_level - 1) < length stack1
                    then Inl IndexError
                    else
                      (let parent_path =
                             (if indent_level > 0 \<and> stack1 \<noteq> []
                              then stack1 ! nat (indent_level - 1) else []);
                           file_path =
                             lstrip_chars
                               (if parent_path \<noteq> [] then parent_path @ ''/'' @ path else path)
                               ''/'';
                           item = item_html @ ''**['' @ path @ '']('' @ file_path
                                  @ ''.html)** - '' @ description
                       in Inr \<lparr>path_stack = stack1, prev_indent = indent_level,
                               html_structure = html_structure s @ [item]\<rparr>))))"

fun tree_lines :: "string list \<Rightarrow> tree_state \<Rightarrow> py_error + tree_state" where
  "tree_lines [] s = Inr s"
| "tree_lines (line # lines) s =
     (case tree_line line s of Inl e \<Rightarrow> Inl e | Inr s' \<Rightarrow> tree_lines lines s')"

text \<open>
  From the tree text to the lines of the HTML structure: the opening \<open>div\<close>, one item
  for each line that is not blank, the closing \<open>div\<close>.
\<close>

definition parse_tree :: "string \<Rightarrow> py_error + string list" where
  \<open>parse_tree tree_text =
     (case tree_lines (split_char CHR ''\<newline>'' tree_text)
             \<lparr>path_stack = [], prev_indent = -1,
              html_structure = [''<div class="repository-structure">'']\<rparr> of
        Inl e \<Rightarrow> Inl e
      | Inr s \<Rightarrow> Inr (html_structure s @ [''</div>'']))\<close>

section \<open>IncrementalBuildDriver: source enumeration and output paths\<close>

text \<open>
  The file system as \<open>find_source_files\<close> sees it: the two tests \<^verbatim>\<open>is_dir\<close> and
  \<^verbatim>\<open>is_file\<close>, and the two listings \<^verbatim>\<open>rglob('*')\<close> (every entry below a directory) and
  \<^verbatim>\<open>iterdir()\<close> (the entries of a directory, an error when it cannot be listed). A
  listing is a list: the order is the one the operating system happens to produce.
\<close>

record filesystem =
  is_dir :: "path \<Rightarrow> bool"
  is_file :: "path \<Rightarrow> bool"
  rglob :: "path \<Rightarrow> path list"
  iterdir :: "path \<Rightarrow> py_error + path list"

definition valid_exts :: "string set" where
  "valid_exts = set [''.c'', ''.h'', ''.py'', ''.sh'', ''.ipynb'']"

definition valid_names :: "string set" where
  "valid_names = set [''Makefile'']"

text \<open>The body of both loops: one listed entry \<open>f\<close>, and the set \<open>files\<close> so far.\<close>

definition add_if_source :: "filesystem \<Rightarrow> path \<Rightarrow> path set \<Rightarrow> path set" where
  "add_if_source fs f files =
     (if is_file fs f then
        (if name f \<in> valid_names then insert f files
         else if suffix f \<in> valid_exts \<and> \<not> endswith (name f) ''.dat'' then insert f files
         else files)
      else files)"

text \<open>
  \<open>source_dirs\<close> holds the configured directory names as relative paths
  (\<^verbatim>\<open>['src-local', 'simulationCases', 'postProcess']\<close> in the script), so that
  \<^verbatim>\<open>root_dir / dir_name\<close> is \<open>root_dir @ dir_name\<close>. \<^verbatim>\<open>sorted(files)\<close> orders paths by
  their components, and each component by its characters.
\<close>

definition scan_source_dir :: "filesystem \<Rightarrow> path \<Rightarrow> path \<Rightarrow> path set \<Rightarrow> path set" where
  "scan_source_dir fs root_dir dir_name files =
     (let src_path = root_dir @ dir_name in
      if is_dir fs src_path then fold (add_if_source fs) (rglob fs src_path) files
      else files)"

definition find_source_files :: "filesystem \<Rightarrow> path \<Rightarrow> path list \<Rightarrow> py_error + path list" where
  "find_source_files fs root_dir source_dirs =
     (let files = fold (scan_source_dir fs root_dir) source_dirs {}
      in case iterdir fs root_dir of
           Inl e \<Rightarrow> Inl e
         | Inr entries \<Rightarrow> Inr (sorted_list_of_set (fold (add_if_source fs) entries files)))"

text \<open>
  The output path of a source file, as the loop of \<open>main\<close> computes it:
  \<^verbatim>\<open>DOCS_DIR / relative_path.with_suffix(relative_path.suffix + '.html')\<close> with
  \<^verbatim>\<open>relative_path = file_path.relative_to(REPO_ROOT)\<close>.
\<close>

definition output_path_for :: "path \<Rightarrow> path \<Rightarrow> path \<Rightarrow> py_error + path" where
  "output_path_for repo_root docs_dir file_path =
     (case relative_to file_path repo_root of
        Inl e \<Rightarrow> Inl e
      | Inr relative_path \<Rightarrow>
          (case with_suffix relative_path (suffix relative_path @ ''.html'') of
             Inl e \<Rightarrow> Inl e
           | Inr p \<Rightarrow> Inr (docs_dir @ p)))"

text \<open>
  What is on disk, whatever the order of the listings: the files that the recursive
  scans of the configured directories accept, the files that the scan of the root
  accepts, and when two file systems hold the same entries.
\<close>

definition accepted :: "filesystem \<Rightarrow> path \<Rightarrow> bool" where
  "accepted fs f =
     (is_file fs f \<and>
      (name f \<in> valid_names \<or> (suffix f \<in> valid_exts \<and> \<not> endswith (name f) ''.dat'')))"

definition matched_recursive :: "filesystem \<Rightarrow> path \<Rightarrow> path list \<Rightarrow> path set" where
  "matched_recursive fs root_dir source_dirs =
     {f. \<exists>d. d \<in> set source_dirs \<and> is_dir fs (root_dir @ d)
            \<and> f \<in> set (rglob fs (root_dir @ d)) \<and> accepted fs f}"

definition matched_root :: "filesystem \<Rightarrow> path list \<Rightarrow> path set" where
  "matched_root fs entries = {f. f \<in> set entries \<and> accepted fs f}"

definition same_listing :: "py_error + path list \<Rightarrow> py_error + path list \<Rightarrow> bool" where
  "same_listing a b =
     (case a of
        Inl e \<Rightarrow> (case b of Inl e' \<Rightarrow> e = e' | Inr ys \<Rightarrow> False)
      | Inr xs \<Rightarrow> (case b of Inl e' \<Rightarrow> False | Inr ys \<Rightarrow> set xs = set ys))"

definition same_disk :: "filesystem \<Rightarrow> filesystem \<Rightarrow> bool" where
  "same_disk fs fs' =
     (is_dir fs = is_dir fs' \<and> is_file fs = is_file fs'
      \<and> (\<forall>d. set (rglob fs d) = set (rglob fs' d))
      \<and> (\<forall>d. same_listing (iterdir fs d) (iterdir fs' d)))"

section \<open>ContentPreprocessor: process\_c\_file\<close>

text \<open>
  The outcome of running the external literate-c tool: the process ran and left a return
  code, its standard output and its standard error, or starting it (or talking to it)
  raised an exception.
\<close>

datatype tool_outcome = Exited int string string | Raised py_error

text \<open>
  \<open>file_read\<close> is the result of reading the source file (an exception of \<^verbatim>\<open>open\<close> or
  \<^verbatim>\<open>read\<close> leaves the function, as it is outside the \<^verbatim>\<open>try\<close>), \<open>tool\<close> the outcome of
  \<^verbatim>\<open>Popen(...).communicate()\<close>.
\<close>

definition process_c_file :: "path \<Rightarrow> py_error + string \<Rightarrow> tool_outcome \<Rightarrow> py_error + string" where
  "process_c_file file_path file_read tool =
     (case file_read of
        Inl e \<Rightarrow> Inl e
      | Inr file_content \<Rightarrow>
          (let markdown_content =
                 ''# '' @ name file_path @ ''\<newline>\<newline>```c\<newline>'' @ file_content @ ''\<newline>```\<newline>''
           in case tool of
                Exited returncode content stderr \<Rightarrow>
                  if returncode = 0 \<and> strip content \<noteq> []
                  then Inr (replace content ''~~~literatec'' ''~~~c'')
                  else Inr markdown_content
              | Raised e \<Rightarrow> Inr markdown_content))"

section \<open>ContentPreprocessor: the metadata of a notebook\<close>

text \<open>A cell of the parsed notebook: its \<open>cell_type\<close> and the pieces of its \<open>source\<close>.\<close>

record cell =
  cell_type :: string
  source :: "string list"

text \<open>\<^verbatim>\<open>^#\s+(.+)$\<close> under \<^verbatim>\<open>MULTILINE\<close>\<close>

definition title_rx :: rx where
  "title_rx = seq [Bol, Lit ''#'', Rep Space 1 True, Group 1 (Rep NotNewline 1 True), Eol]"

text \<open>\<^verbatim>\<open>^#\s+.+\n\n(.+?)(?=\n\n|\Z)\<close> under \<^verbatim>\<open>DOTALL | MULTILINE\<close>\<close>

definition desc_rx :: rx where
  "desc_rx = seq [Bol, Lit ''#'', Rep Space 1 True, Rep AnyChar 1 True, Lit ''\<newline>\<newline>'',
                  Group 1 (Rep AnyChar 1 False), Ahead (Alt (Lit ''\<newline>\<newline>'') EndZ)]"

text \<open>\<^verbatim>\<open>^\s*[\*\-\+]\s+(.+)$\<close> under \<^verbatim>\<open>MULTILINE\<close>\<close>

definition features_rx :: rx where
  "features_rx = seq [Bol, Rep Space 0 True, Chars (OneOf ''*-+''), Rep Space 1 True,
                      Group 1 (Rep NotNewline 1 True), Eol]"

text \<open>
  The metadata found so far: title, description and features. The loop over the cells
  stops at the first markdown cell with a heading.
\<close>

record metadata =
  notebook_title :: string
  notebook_description :: string
  notebook_features :: "string list"

fun scan_cells :: "cell list \<Rightarrow> metadata \<Rightarrow> metadata" where
  "scan_cells [] md = md"
| "scan_cells (c # cs) md =
     (if cell_type c = ''markdown'' then
        (let src = concat (source c) in
         case re_search title_rx src of
           None \<Rightarrow> scan_cells cs md
         | Some title_match \<Rightarrow>
             (let md1 = md\<lparr>notebook_title := strip (group title_match 1)\<rparr> in
              case re_search desc_rx src of
                None \<Rightarrow> md1
              | Some desc_match \<Rightarrow>
                  (let md2 = md1\<lparr>notebook_description := strip (group desc_match 1)\<rparr>;
                       features_match = re_findall features_rx src
                   in if features_match \<noteq> []
                      then md2\<lparr>notebook_features := map strip (take 3 features_match)\<rparr>
                      else md2)))
      else scan_cells cs md)"

text \<open>
  The values of \<open>notebook_title\<close>, \<open>notebook_description\<close> and \<open>notebook_features\<close>
  before they are escaped: what the scan found, with the defaults for an empty
  description and for an empty list of features. \<open>cells\<close> is \<open>None\<close> when the file is not
  valid JSON.
\<close>

definition notebook_metadata :: "string \<Rightarrow> cell list option \<Rightarrow> metadata" where
  "notebook_metadata notebook_filename cells =
     (let md0 = \<lparr>notebook_title = notebook_filename, notebook_description = [],
                 notebook_features = []\<rparr>;
          md = (case cells of None \<Rightarrow> md0 | Some cs \<Rightarrow> scan_cells cs md0);
          md' = (if notebook_description md = []
                 then md\<lparr>notebook_description :=
                        ''This notebook provides visualization and analysis related to ''
                        @ replace (replace (hd (split_char CHR ''.'' notebook_filename)) ''-'' '' '')
                                  ''_'' '' ''
                        @ ''.''\<rparr>
                 else md)
      in if notebook_features md' = []
         then md'\<lparr>notebook_features := [''Visualization of data and results'',
                                          ''Analysis of simulation outputs'',
                                          ''Interactive exploration of parameters'']\<rparr>
         else md')"

section \<open>HTMLPostProcessor: the link pass of post\_process\_python\_shell\_html\<close>

text \<open>\<^verbatim>\<open><a[^>]+href="[^"]+">[^<]+</a>\<close>\<close>

definition link_rx :: rx where
  \<open>link_rx = seq [Lit ''<a'', Rep (NoneOf ''>'') 1 True, Lit ''href="'',
                   Rep (NoneOf ''"'') 1 True, Lit ''">'', Rep (NoneOf ''<'') 1 True,
                   Lit ''</a>'']\<close>

text \<open>\<^verbatim>\<open>href="([^"]+)"\<close>\<close>

definition href_rx :: rx where
  \<open>href_rx = seq [Lit ''href="'', Group 1 (Rep (NoneOf ''"'') 1 True), Lit ''"'']\<close>

text \<open>\<^verbatim>\<open>\.(c|h|py|sh|md)$\<close>\<close>

definition ext_rx :: rx where
  "ext_rx = seq [Lit ''.'',
                 Group 1 (Alt (Lit ''c'') (Alt (Lit ''h'') (Alt (Lit ''py'')
                            (Alt (Lit ''sh'') (Lit ''md''))))),
                 EolS]"

text \<open>The callback \<open>fix_doc_links\<close>, applied to each match of \<open>link_rx\<close>.\<close>

definition fix_doc_links ::
  "(string \<Rightarrow> string \<Rightarrow> py_error + string) \<Rightarrow> rmatch \<Rightarrow> py_error + string" where
  \<open>fix_doc_links esc mt =
     (let link_tag = group mt 0 in
      case re_search href_rx link_tag of
        None \<Rightarrow> Inr link_tag
      | Some href_match \<Rightarrow>
          (let href = group href_match 1 in
           if startswith href ''http'' \<or> startswith href ''https''
              \<or> startswith href ''#'' \<or> endswith href ''.html''
           then Inr link_tag
           else if re_search ext_rx href \<noteq> None
           then re_sub_template esc href_rx (''href="'' @ href @ ''.html"'') link_tag
           else Inr link_tag))\<close>

text \<open>The pass: \<^verbatim>\<open>re.sub(r'<a[^>]+href="[^"]+">[^<]+</a>', fix_doc_links, processed_html)\<close>.\<close>

definition fix_links :: "(string \<Rightarrow> string \<Rightarrow> py_error + string) \<Rightarrow> string \<Rightarrow> py_error + string" where
  "fix_links esc processed_html = re_sub link_rx (fix_doc_links esc) processed_html"

section \<open>insert\_javascript\_in\_html\<close>

text \<open>The inline script, character by character as in the source.\<close>

definition copy_js :: string where
  \<open>copy_js = join ''\<newline>''
     ['''',
      ''    <script type="text/javascript">'',
      ''    document.addEventListener('DOMContentLoaded', function() {'',
      ''        // Add copy button to each code block container'',
      ''        const codeBlocks = document.querySelectorAll('.code-block-container pre');'',
      ''        codeBlocks.forEach(function(codeBlock, index) {'',
      ''            // Create button element'',
      ''            const button = document.createElement('button');'',
      ''            button.className = 'copy-button';'',
      ''            button.textContent = 'Copy';'',
      ''            button.setAttribute('aria-label', 'Copy code to clipboard');'',
      ''            button.setAttribute('data-copy-state', 'copy');'',
      ''            '',
      ''            // Get the code block container (parent of the pre)'',
      ''            const container = codeBlock.parentNode;'',
      ''            '',
      ''            // Add the button to the container'',
      ''            container.appendChild(button);'',
      ''            '',
      ''            // Set up click event'',
      ''            button.addEventListener('click', function() {'',
      ''                // Create a textarea element to copy from'',
      ''                const textarea = document.createElement('textarea');'',
      ''                // Get the text content from the pre element (the actual code)'',
      ''                textarea.value = codeBlock.textContent;'',
      ''                document.body.appendChild(textarea);'',
      ''                textarea.select();'',
      ''                '',
      ''                try {'',
      ''                    // Execute copy command'',
      ''                    document.execCommand('copy');'',
      ''                    // Update button state'',
      ''                    button.textContent = 'Copied!';'',
      ''                    button.classList.add('copied');'',
      ''                    '',
      ''                    // Reset button state after 2 seconds'',
      ''                    setTimeout(function() {'',
      ''                        button.textContent = 'Copy';'',
      ''                        button.classList.remove('copied');'',
      ''                    }, 2000);'',
      ''                } catch (err) {'',
      ''                    console.error('Copy failed:', err);'',
      ''                    button.textContent = 'Error!';'',
      ''                }'',
      ''                '',
      ''                // Clean up'',
      ''                document.body.removeChild(textarea);'',
      ''            });'',
      ''        });'',
      ''    });'',
      ''    </script>'',
      ''        '']\<close>

text \<open>
  The function returns its boolean result and the files after the call. Any exception
  (here: the file cannot be read) is caught, reported and answered by \<open>False\<close>.
\<close>

definition modified_content :: "string \<Rightarrow> string" where
  \<open>modified_content content =
     (let body_end_idx = find content ''</body>'' in
      if body_end_idx = -1 then
        (let body_start_idx = find content ''<body>'' in
         if body_start_idx \<noteq> -1 then content @ copy_js
         else ''<!DOCTYPE html>\<newline><html xmlns="http://www.w3.org/1999/xhtml">\<newline><head>\<newline>''
              @ ''    <meta http-equiv="Content-Type" content="text/html; charset=UTF-8" />\<newline>''
              @ ''</head>\<newline><body>\<newline>'' @ content @ ''\<newline>'' @ copy_js
              @ ''\<newline></body>\<newline></html>'')
      else take (nat body_end_idx) content @ copy_js @ drop (nat body_end_idx) content)\<close>

definition insert_javascript_in_html :: "path \<Rightarrow> store \<Rightarrow> bool \<times> store" where
  \<open>insert_javascript_in_html html_file_path st =
     (case read_text st html_file_path of
        Inl e \<Rightarrow> (False, st)
      | Inr content \<Rightarrow>
          if contains content ''class="copy-button"'' then (True, st)
          else (True, write_text st html_file_path (modified_content content)))\<close>

section \<open>ExternalRenderInvoker and the per-file pipeline\<close>

text \<open>
  The state of a run: the content of the regular files and the directories on disk, the
  dictionary \<open>generated_files\<close>, the steps of the pipeline invoked so far (each with the
  source file it was invoked for) and the messages printed.
\<close>

datatype call = Prepare path | Render path | PostProcess path | InsertJavascript path

datatype message =
    Skipping path
  | Processing path
  | CopiedNotebook path
  | WarningCopyFailed path
  | ErrorRunningPandoc string
  | WarningMissingDoctype path
  | ErrorVerifyingHtml py_error
  | ErrorProcessing path py_error

record run_state =
  contents :: store
  directories :: "path set"
  generated_files :: "path \<rightharpoonup> path"
  calls :: "call list"
  printed :: "message list"

text \<open>
  One run of pandoc: it leaves a return code, its standard output and its standard
  error, and may have written the output file (\<open>Some\<close> of the content written); or
  starting it raised an exception.
\<close>

datatype pandoc_outcome = PandocExit int string string "string option" | PandocRaised py_error

text \<open>
  What the run is given from outside. \<open>prepare\<close> is \<open>prepare_pandoc_input\<close> for a
  source file (classification by suffix and the transform of its kind), \<open>pandoc\<close> the
  renderer for an output path and its input, \<open>post_html\<close> the post-processing of the
  rendered page of a source file (\<open>post_process_python_shell_html\<close>, or the awk pass and
  \<open>post_process_c_html\<close>). Each may raise.
\<close>

record env =
  prepare :: "path \<Rightarrow> py_error + string"
  pandoc :: "path \<Rightarrow> string \<Rightarrow> pandoc_outcome"
  post_html :: "path \<Rightarrow> string \<Rightarrow> py_error + string"

record config =
  REPO_ROOT :: path
  FORCE_REBUILD :: bool
  WIKI_TITLE :: string

text \<open>\<^verbatim>\<open>DOCS_DIR = REPO_ROOT / 'docs'\<close>\<close>

definition DOCS_DIR :: "config \<Rightarrow> path" where
  "DOCS_DIR cfg = REPO_ROOT cfg @ [''docs'']"

text \<open>\<^verbatim>\<open>p.exists()\<close>\<close>

definition path_exists :: "run_state \<Rightarrow> path \<Rightarrow> bool" where
  "path_exists st p = (contents st p \<noteq> None \<or> p \<in> directories st)"

text \<open>
  \<^verbatim>\<open>d.mkdir(parents=True, exist_ok=True)\<close>: nothing to do for a directory that exists;
  an error when \<open>d\<close> or one of its ancestors is a regular file; otherwise \<open>d\<close> and its
  missing ancestors are created.
\<close>

definition mkdir_parents :: "path \<Rightarrow> run_state \<Rightarrow> py_error + run_state" where
  "mkdir_parents d st =
     (if d \<in> directories st then Inr st
      else if \<exists>k \<in> set [0..<Suc (length d)]. contents st (take k d) \<noteq> None then Inl OSError
      else Inr (st\<lparr>directories := directories st \<union> set (map (\<lambda>k. take k d) [0..<Suc (length d)])\<rparr>))"

text \<open>\<^verbatim>\<open><a[^>]*>\s*</a>\<close>, the empty anchors that \<open>run_pandoc\<close> removes.\<close>

definition empty_anchor_rx :: rx where
  "empty_anchor_rx = seq [Lit ''<a'', Rep (NoneOf ''>'') 0 True, Lit ''>'', Rep Space 0 True,
                          Lit ''</a>'']"

text \<open>
  \<open>run_pandoc\<close>. The result is what the function returns (the standard output of pandoc,
  the empty string after a non-zero exit) or the exception that leaves it.
  \<open>seo_metadata\<close> is empty: \<open>extract_seo_metadata\<close> has no \<^verbatim>\<open>return\<close>.
\<close>

definition run_pandoc ::
  "config \<Rightarrow> env \<Rightarrow> path \<Rightarrow> path \<Rightarrow> string \<Rightarrow> string \<Rightarrow> run_state \<Rightarrow> (py_error + string) \<times> run_state" where
  \<open>run_pandoc cfg ev file_path output_html_path page_title pandoc_input st =
     (let st1 = st\<lparr>calls := calls st @ [Render file_path]\<rparr> in
      case pandoc ev output_html_path pandoc_input of
        PandocRaised e \<Rightarrow> (Inl e, st1)
      | PandocExit returncode out err written \<Rightarrow>
          (let st2 = (case written of
                        None \<Rightarrow> st1
                      | Some c \<Rightarrow> st1\<lparr>contents := write_text (contents st1) output_html_path c\<rparr>)
           in if returncode \<noteq> 0
              then (Inr [], st2\<lparr>printed := printed st2 @ [ErrorRunningPandoc err]\<rparr>)
              else
                (case read_text (contents st2) output_html_path of
                   Inl e \<Rightarrow> (Inr out, st2\<lparr>printed := printed st2 @ [ErrorVerifyingHtml e]\<rparr>)
                 | Inr content0 \<Rightarrow>
                     (case re_sub empty_anchor_rx (\<lambda>mt. Inr []) content0 of
                        Inl e \<Rightarrow> (Inr out, st2\<lparr>printed := printed st2 @ [ErrorVerifyingHtml e]\<rparr>)
                      | Inr content \<Rightarrow>
                          (if \<not> contains content ''<!DOCTYPE'' \<or> \<not> contains content ''<html''
                           then (Inr out,
                                 st2\<lparr>printed := printed st2 @ [WarningMissingDoctype output_html_path],
                                     contents := write_text (contents st2) output_html_path
                                       (''<!DOCTYPE html>\<newline><html xmlns="http://www.w3.org/1999/xhtml">\<newline><head>\<newline>''
                                        @ ''    <meta http-equiv="Content-Type" content="text/html; charset=UTF-8" />\<newline>''
                                        @ ''    <title>'' @ WIKI_TITLE cfg @ '' - '' @ page_title @ ''</title>\<newline>''
                                        @ ''    <meta name="description" content="" />\<newline>''
                                        @ ''    <meta name="keywords" content="" />\<newline>''
                                        @ ''</head>\<newline><body>\<newline>'' @ content
                                        @ ''\<newline></body>\<newline></html>'')\<rparr>)
                           else (Inr out,
                                 st2\<lparr>contents := write_text (contents st2) output_html_path content\<rparr>))))))\<close>

text \<open>
  \<^verbatim>\<open>s.lower()\<close>: among the code points \<open>0..255\<close> the letters \<open>A..Z\<close> and
  \<open>0xC0..0xDE\<close> without the multiplication sign \<open>0xD7\<close> have a lower case, 32 further.
\<close>

definition lower :: "string \<Rightarrow> string" where
  "lower s = map (\<lambda>c. if (CHR ''A'' \<le> c \<and> c \<le> CHR ''Z'')
                           \<or> (CHR 0xC0 \<le> c \<and> c \<le> CHR 0xDE \<and> c \<noteq> CHR 0xD7)
                        then char_of (of_char c + (32 :: nat)) else c) s"

text \<open>
  \<open>process_file_with_page2html_logic\<close>: the boolean it returns and the state after it,
  or the exception that leaves it. The first \<^verbatim>\<open>print\<close> is outside the \<^verbatim>\<open>try\<close>: a
  \<^verbatim>\<open>ValueError\<close> of one of its two \<^verbatim>\<open>relative_to\<close> leaves the function. Every exception
  inside the \<^verbatim>\<open>try\<close> is caught, printed and answered by \<open>False\<close>. The value returned by
  \<open>run_pandoc\<close> is bound to \<open>pandoc_stdout\<close> and not looked at.
\<close>

definition process_file_body ::
  "config \<Rightarrow> env \<Rightarrow> path \<Rightarrow> path \<Rightarrow> run_state \<Rightarrow> bool \<times> run_state" where
  "process_file_body cfg ev file_path output_html_path st =
     (let st0 = st\<lparr>printed := printed st @ [Processing file_path]\<rparr>;
          is_jupyter_notebook = (lower (suffix file_path) = ''.ipynb'');
          notebook_dest = parent output_html_path @ [name file_path];
          st1 = (if is_jupyter_notebook then
                   (case contents st0 file_path of
                      None \<Rightarrow> st0\<lparr>printed := printed st0 @ [WarningCopyFailed file_path]\<rparr>
                    | Some c \<Rightarrow> st0\<lparr>contents := write_text (contents st0) notebook_dest c,
                                     printed := printed st0 @ [CopiedNotebook notebook_dest]\<rparr>)
                 else st0);
          st2 = st1\<lparr>calls := calls st1 @ [Prepare file_path]\<rparr>;
          failed = (\<lambda>e s. (False, s\<lparr>printed := printed s @ [ErrorProcessing file_path e]\<rparr>))
      in case prepare ev file_path of
           Inl e \<Rightarrow> failed e st2
         | Inr pandoc_input_content \<Rightarrow>
             (case relative_to output_html_path (REPO_ROOT cfg @ [''docs'']) of
                Inl e \<Rightarrow> failed e st2
              | Inr page_rel \<Rightarrow>
                  (case relative_to file_path (REPO_ROOT cfg) of
                     Inl e \<Rightarrow> failed e st2
                   | Inr rel \<Rightarrow>
                       (let page_title =
                              lstrip_chars (rstrip_chars (join ''/'' rel) [CHR ''-'', CHR '' '', CHR 0x09])
                                           [CHR ''-'', CHR '' '', CHR 0x09]
                        in case run_pandoc cfg ev file_path output_html_path page_title
                                  pandoc_input_content st2 of
                             (Inl e, st3) \<Rightarrow> failed e st3
                           | (Inr pandoc_stdout, st3) \<Rightarrow>
                               (case read_text (contents st3) output_html_path of
                                  Inl e \<Rightarrow> failed e st3
                                | Inr html_content \<Rightarrow>
                                    (let st4 = st3\<lparr>calls := calls st3 @ [PostProcess file_path]\<rparr>
                                     in case post_html ev file_path html_content of
                                          Inl e \<Rightarrow> failed e st4
                                        | Inr processed_html \<Rightarrow>
                                            (let st5 = st4\<lparr>contents := write_text (contents st4)
                                                                      output_html_path processed_html,
                                                            calls := calls st4 @ [InsertJavascript file_path]\<rparr>
                                             in (True, st5\<lparr>contents :=
                                                   snd (insert_javascript_in_html output_html_path
                                                          (contents st5))\<rparr>))))))))"

definition process_file_with_page2html_logic ::
  "config \<Rightarrow> env \<Rightarrow> path \<Rightarrow> path \<Rightarrow> run_state \<Rightarrow> py_error + bool \<times> run_state" where
  "process_file_with_page2html_logic cfg ev file_path output_html_path st =
     (case relative_to file_path (REPO_ROOT cfg) of
        Inl e \<Rightarrow> Inl e
      | Inr shown_source \<Rightarrow>
          (case relative_to output_html_path (REPO_ROOT cfg @ [''docs'']) of
             Inl e \<Rightarrow> Inl e
           | Inr shown_output \<Rightarrow>
               Inr (process_file_body cfg ev file_path output_html_path st)))"

section \<open>IncrementalBuildDriver: the loop of main over the source files\<close>

text \<open>
  The body of the loop for one source file. An exception that leaves it (from the
  computation of the output path, from \<^verbatim>\<open>mkdir\<close> or from the first \<^verbatim>\<open>print\<close> of the
  pipeline) ends the run.
\<close>

definition main_step :: "config \<Rightarrow> env \<Rightarrow> path \<Rightarrow> run_state \<Rightarrow> py_error + run_state" where
  "main_step cfg ev file_path st =
     (case output_path_for (REPO_ROOT cfg) (DOCS_DIR cfg) file_path of
        Inl e \<Rightarrow> Inl e
      | Inr output_html_path \<Rightarrow>
          (case mkdir_parents (parent output_html_path) st of
             Inl e \<Rightarrow> Inl e
           | Inr st1 \<Rightarrow>
               if \<not> FORCE_REBUILD cfg \<and> path_exists st1 output_html_path
               then Inr (st1\<lparr>printed := printed st1 @ [Skipping output_html_path],
                              generated_files := (generated_files st1)(file_path \<mapsto> output_html_path)\<rparr>)
               else
                 (case process_file_with_page2html_logic cfg ev file_path output_html_path st1 of
                    Inl e \<Rightarrow> Inl e
                  | Inr (ok, st2) \<Rightarrow>
                      if ok
                      then Inr (st2\<lparr>generated_files :=
                                        (generated_files st2)(file_path \<mapsto> output_html_path)\<rparr>)
                      else Inr st2)))"

fun main_loop :: "config \<Rightarrow> env \<Rightarrow> path list \<Rightarrow> run_state \<Rightarrow> py_error + run_state" where
  "main_loop cfg ev [] st = Inr st"
| "main_loop cfg ev (file_path # source_files) st =
     (case main_step cfg ev file_path st of
        Inl e \<Rightarrow> Inl e
      | Inr st' \<Rightarrow> main_loop cfg ev source_files st')"

section \<open>Example data\<close>

text \<open>A small repository, used to run the enumeration.\<close>

definition disk_a :: filesystem where
  "disk_a = \<lparr>
      is_dir = (\<lambda>p. p \<in> set [[''repo''], [''repo'', ''postProcess'']]),
      is_file = (\<lambda>p. p \<in> set [[''repo'', ''run.sh''], [''repo'', ''Makefile''],
                                 [''repo'', ''out.dat''], [''repo'', ''postProcess'', ''video.py'']]),
      rglob = (\<lambda>p. if p = [''repo'']
                    then [[''repo'', ''run.sh''], [''repo'', ''postProcess''],
                          [''repo'', ''postProcess'', ''video.py''], [''repo'', ''Makefile''],
                          [''repo'', ''out.dat'']]
                    else if p = [''repo'', ''postProcess'']
                    then [[''repo'', ''postProcess'', ''video.py'']] else []),
      iterdir = (\<lambda>p. if p = [''repo'']
                      then Inr [[''repo'', ''run.sh''], [''repo'', ''postProcess''],
                                [''repo'', ''Makefile''], [''repo'', ''out.dat'']]
                      else Inl OSError) \<rparr>"

text \<open>A small generated page, with its closing \<open>body\<close> tag.\<close>

definition page_a :: store where
  "page_a = [[''docs'', ''a.py.html''] \<mapsto> ''<body></body>'']"

text \<open>
  A run without and with \<^verbatim>\<open>--force-rebuild\<close>, a renderer that fails on every input and
  writes nothing, and a state of the run in which the page of \<open>postProcess/video.py\<close> is
  on disk.
\<close>

definition cfg_a :: config where
  "cfg_a = \<lparr>REPO_ROOT = [''repo''], FORCE_REBUILD = False, WIKI_TITLE = ''Docs''\<rparr>"

definition cfg_forced :: config where
  "cfg_forced = \<lparr>REPO_ROOT = [''repo''], FORCE_REBUILD = True, WIKI_TITLE = ''Docs''\<rparr>"

definition env_pandoc_fails :: env where
  "env_pandoc_fails =
     \<lparr>prepare = (\<lambda>f. Inr ''print(1)''),
      pandoc = (\<lambda>out inp. PandocExit 1 [] ''pandoc: failed'' None),
      post_html = (\<lambda>f h. Inr h)\<rparr>"

definition run_a :: run_state where
  "run_a =
     \<lparr>contents = [[''repo'', ''docs'', ''postProcess'', ''video.py.html''] \<mapsto> ''<body>old</body>''],
      directories = set [[], [''repo''], [''repo'', ''docs''], [''repo'', ''docs'', ''postProcess'']],
      generated_files = Map.empty, calls = [], printed = []\<rparr>"

text \<open>
  An expansion of templates for the examples: every template with a backslash is
  refused. The examples hold no backslash.
\<close>

definition reject_escapes :: "string \<Rightarrow> string \<Rightarrow> py_error + string" where
  "reject_escapes template s = Inl ReError"

section \<open>Properties\<close>

subsection \<open>Asset prefix\<close>

lemma relative_to_append: "relative_to (d @ rel) d = Inr rel"
  by (simp add: relative_to_def)

lemma length_parents: "length (parents p) = length p"
  by (simp add: parents_def)

text \<open>
  C2. An output file is the doc root \<open>docs_dir\<close> followed by the components \<open>rel\<close>;
  its depth below the doc root is the number of directories in \<open>rel\<close>, that is
  \<open>length rel - 1\<close>. \<open>calculate_asset_prefix\<close> returns \<open>.\<close> for the root index file
  and for every file directly under the doc root, and for a file at depth \<open>d \<ge> 1\<close>
  exactly \<open>d\<close> segments \<open>..\<close> joined by \<open>/\<close>.
\<close>

theorem calculate_asset_prefix_depth:
  "calculate_asset_prefix (docs_dir @ [''index.html'']) docs_dir = ''.''
   \<and> (length rel \<le> 1 \<longrightarrow> calculate_asset_prefix (docs_dir @ rel) docs_dir = ''.'')
   \<and> (1 \<le> d \<and> length rel = Suc d \<longrightarrow>
        calculate_asset_prefix (docs_dir @ rel) docs_dir = join ''/'' (replicate d ''..''))"
proof (intro conjI impI)
  show "calculate_asset_prefix (docs_dir @ [''index.html'']) docs_dir = ''.''"
    by (simp add: calculate_asset_prefix_def name_def parent_def)
next
  assume "length rel \<le> 1"
  then show "calculate_asset_prefix (docs_dir @ rel) docs_dir = ''.''"
    by (simp add: calculate_asset_prefix_def relative_to_append length_parents)
next
  assume "1 \<le> d \<and> length rel = Suc d"
  then have d: "1 \<le> d" and len: "length rel = Suc d" by simp_all
  from len have rel: "rel \<noteq> []" by auto
  have notidx: "parent (docs_dir @ rel) \<noteq> docs_dir"
  proof
    assume "parent (docs_dir @ rel) = docs_dir"
    then have "butlast (docs_dir @ rel) = docs_dir" by (simp add: parent_def)
    with rel have "docs_dir @ butlast rel = docs_dir" by (simp add: butlast_append)
    then have "butlast rel = []" by simp
    then have "length rel \<le> 1" by (cases rel) (auto split: if_splits)
    with d len show False by simp
  qed
  from d len have "int (length rel) - 1 = int d" by simp
  with notidx d show "calculate_asset_prefix (docs_dir @ rel) docs_dir = join ''/'' (replicate d ''..'')"
    by (simp add: calculate_asset_prefix_def relative_to_append length_parents)
qed

theorem calculate_asset_prefix_depth_witness:
  "calculate_asset_prefix [''docs'', ''index.html''] [''docs''] = ''.''
   \<and> calculate_asset_prefix [''docs'', ''README.md.html''] [''docs''] = ''.''
   \<and> calculate_asset_prefix [''docs'', ''src-local'', ''sub'', ''a.h.html''] [''docs''] = ''../..''"
  using calculate_asset_prefix_depth [of "[''docs'']" "[''README.md.html'']" 1]
    calculate_asset_prefix_depth [of "[''docs'']" "[''src-local'', ''sub'', ''a.h.html'']" 2]
  by (simp add: numeral_2_eq_2)

subsection \<open>Source enumeration\<close>

lemma add_if_source_eq:
  "add_if_source fs f files = (if accepted fs f then insert f files else files)"
  by (auto simp: add_if_source_def accepted_def)

lemma fold_add_if_source:
  "fold (add_if_source fs) entries files = files \<union> {f. f \<in> set entries \<and> accepted fs f}"
  by (induction entries arbitrary: files) (auto simp: add_if_source_eq)

lemma fold_source_dirs:
  "fold (scan_source_dir fs root_dir) source_dirs files
   = files \<union> matched_recursive fs root_dir source_dirs"
proof (induction source_dirs arbitrary: files)
  case Nil
  show ?case by (simp add: matched_recursive_def)
next
  case (Cons d ds)
  have split: "matched_recursive fs root_dir (d # ds) =
      (if is_dir fs (root_dir @ d) then {f. f \<in> set (rglob fs (root_dir @ d)) \<and> accepted fs f} else {})
      \<union> matched_recursive fs root_dir ds"
    by (auto simp: matched_recursive_def)
  have step: "scan_source_dir fs root_dir d files =
      files \<union> (if is_dir fs (root_dir @ d)
                then {f. f \<in> set (rglob fs (root_dir @ d)) \<and> accepted fs f} else {})"
    by (simp add: scan_source_dir_def fold_add_if_source)
  show ?case
    by (simp only: fold_Cons comp_apply Cons.IH step split Un_assoc)
qed

lemma count_list_distinct: "distinct xs \<Longrightarrow> x \<in> set xs \<Longrightarrow> count_list xs x = 1"
  by (induction xs) (auto simp: count_list_0_iff)

lemma find_source_files_set:
  assumes "find_source_files fs root_dir source_dirs = Inr files"
  obtains entries where "iterdir fs root_dir = Inr entries"
    and "files = sorted_list_of_set (matched_recursive fs root_dir source_dirs \<union> matched_root fs entries)"
  using assms
  by (auto simp: find_source_files_def fold_source_dirs fold_add_if_source matched_root_def
           split: sum.splits)

lemma finite_matched_recursive: "finite (matched_recursive fs root_dir source_dirs)"
proof -
  have "matched_recursive fs root_dir source_dirs
        \<subseteq> (\<Union>d \<in> set source_dirs. set (rglob fs (root_dir @ d)))"
    by (auto simp: matched_recursive_def)
  then show ?thesis by (rule finite_subset) simp
qed

lemma finite_matched_root: "finite (matched_root fs entries)"
  by (rule finite_subset [of _ "set entries"]) (auto simp: matched_root_def)

lemma same_disk_accepted: "same_disk fs fs' \<Longrightarrow> accepted fs f = accepted fs' f"
  by (simp add: same_disk_def accepted_def)

lemma same_disk_matched_recursive:
  "same_disk fs fs' \<Longrightarrow> matched_recursive fs r ds = matched_recursive fs' r ds"
  unfolding matched_recursive_def
  using same_disk_accepted [of fs fs'] by (simp add: same_disk_def)

text \<open>
  C9. Whenever \<open>find_source_files\<close> returns a list, the list has no duplicates and is
  strictly ascending in path order; it holds exactly the files accepted by the recursive
  scans or by the scan of the root, so that a file matched by both is there exactly once;
  and a file system with the same entries, listed in any other order, gives the same list.
\<close>

theorem find_source_files_sorted_distinct:
  assumes "find_source_files fs root_dir source_dirs = Inr files"
  shows "distinct files \<and> sorted files
    \<and> (\<exists>entries. iterdir fs root_dir = Inr entries
          \<and> set files = matched_recursive fs root_dir source_dirs \<union> matched_root fs entries)
    \<and> (\<forall>f. f \<in> set files \<longrightarrow> count_list files f = 1)
    \<and> (\<forall>fs'. same_disk fs fs' \<longrightarrow> find_source_files fs' root_dir source_dirs = Inr files)"
proof -
  from assms obtain entries where it: "iterdir fs root_dir = Inr entries"
    and files: "files = sorted_list_of_set
                  (matched_recursive fs root_dir source_dirs \<union> matched_root fs entries)"
    by (rule find_source_files_set)
  let ?S = "matched_recursive fs root_dir source_dirs \<union> matched_root fs entries"
  have fin: "finite ?S"
    by (simp add: finite_matched_recursive finite_matched_root)
  have d: "distinct files" and s: "sorted files" and st: "set files = ?S"
    using fin by (simp_all add: files)
  have once: "\<forall>f. f \<in> set files \<longrightarrow> count_list files f = 1"
    using d by (simp add: count_list_distinct)
  have stable: "find_source_files fs' root_dir source_dirs = Inr files" if sd: "same_disk fs fs'" for fs'
  proof -
    from sd have "same_listing (iterdir fs root_dir) (iterdir fs' root_dir)"
      by (simp add: same_disk_def)
    with it obtain entries' where it': "iterdir fs' root_dir = Inr entries'"
      and se: "set entries = set entries'"
      by (auto simp: same_listing_def split: sum.splits)
    have "matched_root fs entries = matched_root fs' entries'"
      using same_disk_accepted [OF sd] se by (simp add: matched_root_def)
    then show ?thesis
      using same_disk_matched_recursive [OF sd, of root_dir source_dirs] it'
      by (simp add: find_source_files_def fold_source_dirs fold_add_if_source files
                    matched_root_def)
  qed
  from d s st it once stable show ?thesis by blast
qed

text \<open>
  A repository whose root is also scanned recursively: \<open>run.sh\<close> and \<open>Makefile\<close> are
  matched by both scans, \<open>out.dat\<close> by none.
\<close>

theorem find_source_files_sorted_distinct_witness:
  "find_source_files disk_a [''repo''] [[''postProcess''], []] =
     Inr [[''repo'', ''Makefile''], [''repo'', ''postProcess'', ''video.py''], [''repo'', ''run.sh'']]
   \<and> distinct [[''repo'', ''Makefile''], [''repo'', ''postProcess'', ''video.py''], [''repo'', ''run.sh'']]
   \<and> sorted [[''repo'', ''Makefile''], [''repo'', ''postProcess'', ''video.py''], [''repo'', ''run.sh'']]
   \<and> count_list [[''repo'', ''Makefile''], [''repo'', ''postProcess'', ''video.py''], [''repo'', ''run.sh'']]
        [''repo'', ''run.sh''] = 1"
proof -
  have e: "find_source_files disk_a [''repo''] [[''postProcess''], []] =
     Inr [[''repo'', ''Makefile''], [''repo'', ''postProcess'', ''video.py''], [''repo'', ''run.sh'']]"
    by code_simp
  from find_source_files_sorted_distinct [OF e] e show ?thesis by simp
qed

subsection \<open>Output paths\<close>

lemma rfind_char_bound: "rfind_char s c < int (length s)"
  by (induction s) (auto simp: Let_def)

lemma rfind_char_nth: "0 \<le> rfind_char s c \<Longrightarrow> s ! nat (rfind_char s c) = c"
proof (induction s)
  case Nil
  then show ?case by simp
next
  case (Cons x xs)
  show ?case
  proof (cases "0 \<le> rfind_char xs c")
    case True
    then have "nat (rfind_char xs c + 1) = Suc (nat (rfind_char xs c))" by simp
    with True Cons.IH show ?thesis by (simp add: Let_def)
  next
    case False
    with Cons.prems show ?thesis by (simp add: Let_def split: if_splits)
  qed
qed

lemma suffix_of_name: "take (length (name p) - length (suffix p)) (name p) @ suffix p = name p"
proof (cases "suffix p = []")
  case True
  then show ?thesis by simp
next
  case False
  let ?i = "nat (rfind_char (name p) (CHR ''.''))"
  from False have eq: "suffix p = drop ?i (name p)"
    and i: "rfind_char (name p) (CHR ''.'') < int (length (name p)) - 1"
    by (auto simp: suffix_def Let_def split: if_splits)
  from i have "?i \<le> length (name p)" by simp
  then have "length (name p) - (length (name p) - ?i) = ?i" by simp
  then show ?thesis by (simp add: eq)
qed

lemma suffix_subset: "set (suffix p) \<subseteq> set (name p)"
  by (auto simp: suffix_def Let_def dest: in_set_dropD)

lemma startswith_dot: "s \<noteq> [] \<Longrightarrow> startswith s ''.'' = (hd s = CHR ''.'')"
  by (cases s) simp_all

lemma suffix_starts_with_dot: "suffix p \<noteq> [] \<Longrightarrow> hd (suffix p) = CHR ''.''"
proof -
  assume ne: "suffix p \<noteq> []"
  let ?nm = "name p"
  let ?i = "rfind_char ?nm (CHR ''.'')"
  from ne have i: "0 < ?i" "?i < int (length ?nm) - 1" and eq: "suffix p = drop (nat ?i) ?nm"
    by (auto simp: suffix_def Let_def split: if_splits)
  from i have "nat ?i < length ?nm" by simp
  then have "hd (drop (nat ?i) ?nm) = ?nm ! nat ?i" by (simp add: hd_drop_conv_nth)
  also from i have "\<dots> = CHR ''.''" by (simp add: rfind_char_nth)
  finally show ?thesis by (simp add: eq)
qed

text \<open>Appending \<open>.html\<close> to the old suffix keeps the whole name and adds \<open>.html\<close>.\<close>

lemma with_suffix_html:
  "with_suffix p (suffix p @ ''.html'') =
     (if CHR ''/'' \<in> set (suffix p) \<or> name p = [] then Inl ValueError
      else Inr (butlast p @ [name p @ ''.html'']))"
proof -
  have dot: "startswith (suffix p @ ''.html'') ''.''"
    using suffix_starts_with_dot [of p] by (cases "suffix p") simp_all
  have nm: "(if suffix p = [] then name p @ suffix p @ ''.html''
             else take (length (name p) - length (suffix p)) (name p) @ suffix p @ ''.html'')
            = name p @ ''.html''"
    using suffix_of_name [of p] by (metis append.assoc append_Nil)
  show ?thesis
    using dot nm by (simp add: with_suffix_def Let_def)
qed

lemma output_html_path_Inr:
  assumes "output_path_for repo_root docs_dir f = Inr out"
  shows "\<exists>rel. f = repo_root @ rel \<and> rel \<noteq> [] \<and> out = docs_dir @ butlast rel @ [last rel @ ''.html'']"
proof -
  from assms obtain rel where rel: "relative_to f repo_root = Inr rel"
    and ws: "with_suffix rel (suffix rel @ ''.html'') = Inr (drop (length docs_dir) out)"
    and out: "out = docs_dir @ drop (length docs_dir) out"
    by (auto simp: output_path_for_def split: sum.splits)
  from rel have f: "f = repo_root @ rel"
    by (auto simp: relative_to_def split: if_splits) (metis append_take_drop_id)
  from ws have nm: "name rel \<noteq> []" and p: "drop (length docs_dir) out = butlast rel @ [name rel @ ''.html'']"
    by (auto simp: with_suffix_html split: if_splits)
  from nm have ne: "rel \<noteq> []" by (auto simp: name_def)
  with p out f show ?thesis by (auto simp: name_def)
qed

text \<open>
  C1. A source file is the repository root followed by its repository-relative
  components \<open>rel\<close> (not empty, the last one a file name). Its output path is the doc root
  joined with the same components, \<open>.html\<close> appended to the file name after its
  original suffix; and two source files with the same output path are the same file.
\<close>

theorem output_html_path_injective:
  "(rel \<noteq> [] \<and> last rel \<noteq> [] \<and> CHR ''/'' \<notin> set (last rel) \<longrightarrow>
      output_path_for repo_root docs_dir (repo_root @ rel)
        = Inr (docs_dir @ butlast rel @ [last rel @ ''.html'']))
   \<and> (output_path_for repo_root docs_dir f1 = Inr out
        \<and> output_path_for repo_root docs_dir f2 = Inr out \<longrightarrow> f1 = f2)"
proof (intro conjI impI)
  assume a: "rel \<noteq> [] \<and> last rel \<noteq> [] \<and> CHR ''/'' \<notin> set (last rel)"
  then have nm: "name rel = last rel" by (simp add: name_def)
  with a have "CHR ''/'' \<notin> set (suffix rel)" using suffix_subset [of rel] by auto
  with a nm show "output_path_for repo_root docs_dir (repo_root @ rel)
        = Inr (docs_dir @ butlast rel @ [last rel @ ''.html''])"
    by (simp add: output_path_for_def relative_to_append with_suffix_html)
next
  assume "output_path_for repo_root docs_dir f1 = Inr out
        \<and> output_path_for repo_root docs_dir f2 = Inr out"
  then obtain r1 r2 where 1: "f1 = repo_root @ r1" "r1 \<noteq> []"
      "out = docs_dir @ butlast r1 @ [last r1 @ ''.html'']"
    and 2: "f2 = repo_root @ r2" "r2 \<noteq> []"
      "out = docs_dir @ butlast r2 @ [last r2 @ ''.html'']"
    using output_html_path_Inr by blast
  from 1(3) 2(3) have "butlast r1 = butlast r2" "last r1 = last r2" by simp_all
  with 1(2) 2(2) have "r1 = r2" by (metis append_butlast_last_id)
  with 1(1) 2(1) show "f1 = f2" by simp
qed

theorem output_html_path_injective_witness:
  "output_path_for [''repo''] [''repo'', ''docs''] [''repo'', ''a'', ''b'', ''file.c'']
     = Inr [''repo'', ''docs'', ''a'', ''b'', ''file.c.html'']
   \<and> output_path_for [''repo''] [''repo'', ''docs''] [''repo'', ''a'', ''b'', ''file.h'']
     \<noteq> Inr [''repo'', ''docs'', ''a'', ''b'', ''file.c.html'']"
proof -
  have 1: "output_path_for [''repo''] [''repo'', ''docs''] [''repo'', ''a'', ''b'', ''file.c'']
     = Inr [''repo'', ''docs'', ''a'', ''b'', ''file.c.html'']"
    using output_html_path_injective
      [of "[''a'', ''b'', ''file.c'']" "[''repo'']" "[''repo'', ''docs'']"]
    by simp
  have "[''repo'', ''a'', ''b'', ''file.h''] \<noteq> [''repo'', ''a'', ''b'', ''file.c'']" by simp
  with 1 output_html_path_injective
      [of "[]" "[''repo'']" "[''repo'', ''docs'']" "[''repo'', ''a'', ''b'', ''file.h'']"
          "[''repo'', ''docs'', ''a'', ''b'', ''file.c.html'']" "[''repo'', ''a'', ''b'', ''file.c'']"]
  show ?thesis by blast
qed

subsection \<open>Native sources\<close>

lemma strip_Nil_iff: "strip s = [] \<longleftrightarrow> (\<forall>c \<in> set s. isspace c)"
proof
  assume e: "strip s = []"
  let ?r = "dropWhile isspace (rev s)"
  from e have "dropWhile isspace (rev ?r) = []"
    unfolding strip_def lstrip_def rstrip_def .
  then have all: "\<forall>x \<in> set ?r. isspace x"
    by (simp only: dropWhile_eq_Nil_conv set_rev)
  have "?r = []"
  proof (rule ccontr)
    assume ne: "?r \<noteq> []"
    then have "\<not> isspace (hd ?r)" by (rule hd_dropWhile)
    moreover from ne have "hd ?r \<in> set ?r" by (rule hd_in_set)
    ultimately show False using all by blast
  qed
  then show "\<forall>c \<in> set s. isspace c"
    by (simp only: dropWhile_eq_Nil_conv set_rev)
next
  assume "\<forall>c \<in> set s. isspace c"
  then have r: "dropWhile isspace (rev s) = []" by (simp add: dropWhile_eq_Nil_conv)
  show "strip s = []"
    by (simp only: strip_def lstrip_def rstrip_def r rev.simps dropWhile.simps)
qed

text \<open>
  C6, as the code has it. The tool's output supersedes the fallback when the tool exits
  with code 0 and its output holds a character that is not whitespace; then the marker
  \<open>~~~literatec\<close> is replaced by \<open>~~~c\<close>. On a non-zero exit, on an output that is empty
  or all whitespace, and on an exception of the invocation, the result is the fallback:
  the file name as a heading, then the file content in a code block fenced with
  \<open>```c\<close>.
\<close>

theorem process_c_file_fallback:
  "(returncode = 0 \<and> (\<exists>c \<in> set content. \<not> isspace c) \<longrightarrow>
      process_c_file file_path (Inr file_content) (Exited returncode content stderr)
        = Inr (replace content ''~~~literatec'' ''~~~c''))
   \<and> (returncode \<noteq> 0 \<or> (\<forall>c \<in> set content. isspace c) \<longrightarrow>
      process_c_file file_path (Inr file_content) (Exited returncode content stderr)
        = Inr (''# '' @ name file_path @ ''\<newline>\<newline>```c\<newline>'' @ file_content @ ''\<newline>```\<newline>''))
   \<and> process_c_file file_path (Inr file_content) (Raised e)
        = Inr (''# '' @ name file_path @ ''\<newline>\<newline>```c\<newline>'' @ file_content @ ''\<newline>```\<newline>'')"
  using strip_Nil_iff [of content]
  by (auto simp: process_c_file_def)

theorem process_c_file_fallback_witness:
  "process_c_file [''src-local'', ''a.c''] (Inr ''int x;'') (Exited 0 ''~~~literatec\<newline>int x;\<newline>~~~'' [])
     = Inr ''~~~c\<newline>int x;\<newline>~~~''
   \<and> process_c_file [''src-local'', ''a.c''] (Inr ''int x;'') (Exited 1 ''partial'' ''failed'')
     = Inr ''# a.c\<newline>\<newline>```c\<newline>int x;\<newline>```\<newline>''
   \<and> process_c_file [''src-local'', ''a.c''] (Inr ''int x;'') (Exited 0 [] [])
     = Inr ''# a.c\<newline>\<newline>```c\<newline>int x;\<newline>```\<newline>''"
  using process_c_file_fallback
          [of 0 "''~~~literatec\<newline>int x;\<newline>~~~''" "[''src-local'', ''a.c'']" "''int x;''" "[]"]
        process_c_file_fallback
          [of 1 "''partial''" "[''src-local'', ''a.c'']" "''int x;''" "''failed''"]
        process_c_file_fallback
          [of 0 "[]" "[''src-local'', ''a.c'']" "''int x;''" "[]"]
  by (simp add: isspace_def replace_def name_def)

text \<open>
  The claim as stated fails where the tool exits with code 0 and prints a single line
  feed: the output is not empty, and the result is the fallback, not the output.
\<close>

theorem process_c_file_blank_output_counterexample:
  "''\<newline>'' \<noteq> []
   \<and> process_c_file [''src-local'', ''a.c''] (Inr ''int x;'') (Exited 0 ''\<newline>'' [])
       = Inr ''# a.c\<newline>\<newline>```c\<newline>int x;\<newline>```\<newline>''
   \<and> process_c_file [''src-local'', ''a.c''] (Inr ''int x;'') (Exited 0 ''\<newline>'' [])
       \<noteq> Inr (replace ''\<newline>'' ''~~~literatec'' ''~~~c'')"
  by (simp add: process_c_file_def strip_def lstrip_def rstrip_def isspace_def name_def replace_def)

text \<open>
  The same holds for an output that is a single no-break space, which
  \<^verbatim>\<open>content.strip()\<close> removes as well.
\<close>

lemma process_c_file_no_break_space:
  "process_c_file [''src-local'', ''a.c''] (Inr ''int x;'') (Exited 0 [CHR 0xA0] [])
     = Inr ''# a.c\<newline>\<newline>```c\<newline>int x;\<newline>```\<newline>''"
  by code_simp

subsection \<open>The copy-button script\<close>

lemma copy_js_no_marker: \<open>\<not> contains (''<body>'' @ copy_js @ ''</body>'') ''class="copy-button"''\<close>
  unfolding copy_js_def by simp

lemma length_modified_content: "length content < length (modified_content content)"
proof -
  have js: "0 < length copy_js" unfolding copy_js_def by simp
  let ?i = "nat (find content ''</body>'')"
  have "length (take ?i content @ copy_js @ drop ?i content) = length content + length copy_js"
    by simp
  with js have "length content < length (take ?i content @ copy_js @ drop ?i content)"
    by linarith
  with js show ?thesis
    by (simp add: modified_content_def Let_def del: length_append) simp
qed

lemma insert_javascript_grows:
  assumes "st p = Some content" and \<open>\<not> contains content ''class="copy-button"''\<close>
  shows "insert_javascript_in_html p st = (True, st(p \<mapsto> modified_content content))"
  using assms by (simp add: insert_javascript_in_html_def read_text_def write_text_def)

text \<open>
  C10 fails on the code. The page \<open><body></body>\<close> holds no copy button. The first call
  puts the script before \<open></body>\<close> and returns \<open>True\<close>; the script holds no text
  \<open>class="copy-button"\<close> (it sets \<open>className\<close>), so the second call returns \<open>True\<close> as
  well and the content of the file changes again.
\<close>

theorem insert_javascript_not_idempotent:
  \<open>insert_javascript_in_html [''docs'', ''a.py.html''] page_a
     = (True, page_a([''docs'', ''a.py.html''] \<mapsto> ''<body>'' @ copy_js @ ''</body>''))
   \<and> fst (insert_javascript_in_html [''docs'', ''a.py.html'']
            (snd (insert_javascript_in_html [''docs'', ''a.py.html''] page_a)))
   \<and> snd (insert_javascript_in_html [''docs'', ''a.py.html'']
            (snd (insert_javascript_in_html [''docs'', ''a.py.html''] page_a)))
         [''docs'', ''a.py.html'']
       \<noteq> snd (insert_javascript_in_html [''docs'', ''a.py.html''] page_a) [''docs'', ''a.py.html'']\<close>
proof -
  let ?p = "[''docs'', ''a.py.html'']"
  let ?c1 = "''<body>'' @ copy_js @ ''</body>''"
  let ?st1 = "page_a(?p \<mapsto> ?c1)"
  have "modified_content ''<body></body>'' = ?c1"
    by (simp add: modified_content_def)
  then have 1: "insert_javascript_in_html ?p page_a = (True, ?st1)"
    by (simp add: insert_javascript_in_html_def page_a_def read_text_def write_text_def)
  have "?st1 ?p = Some ?c1" by simp
  from insert_javascript_grows [of ?st1 ?p, OF this copy_js_no_marker]
  have 2: "insert_javascript_in_html ?p ?st1 = (True, ?st1(?p \<mapsto> modified_content ?c1))" .
  have "modified_content ?c1 \<noteq> ?c1"
    using length_modified_content [of ?c1] by (metis less_irrefl)
  with 1 2 show ?thesis by simp
qed

subsection \<open>Directory tree\<close>

lemma output_path_nested:
  "output_path_for [''repo''] [''repo'', ''docs''] [''repo'', ''app'', ''core'', ''main.c'']
     = Inr [''repo'', ''docs'', ''app'', ''core'', ''main.c.html'']"
  by code_simp

text \<open>
  C3 fails on the code. For the tree text of three lines \<open>app/\<close>, \<open>core/\<close> (indented
  once) and \<open>main.c\<close> (indented twice), the parser emits a link for the directory \<open>app/\<close>
  with target \<open>app\<close>, but the link for the directory \<open>core/\<close> has the target \<open>core\<close>,
  not \<open>app/core\<close>, and the link for the file \<open>main.c\<close> has the target \<open>core/main.c.html\<close>,
  not \<open>app/core/main.c.html\<close>. The stack of parent directories holds bare names: a
  directory is linked by its own name, a file by the name of the directory one level up
  and its own, so below the first level the ancestors are lost. The page of
  \<open>app/core/main.c\<close> is written to \<open>app/core/main.c.html\<close> under the output directory
  (\<open>output_path_nested\<close>), where the emitted link does not lead.
\<close>

theorem parse_tree_nested:
  \<open>parse_tree ''app/\<newline>   core/\<newline>      main.c'' =
     Inr [''<div class="repository-structure">'',
          ''* **[app/](app)** - '',
          ''  * **[core/](core)** - '',
          ''    * **[main.c](core/main.c.html)** - '',
          ''</div>'']\<close>
  by code_simp

subsection \<open>Notebook metadata\<close>

text \<open>
  C5 fails on the code. For the notebook whose first markdown cell is the heading
  \<open># Demo\<close>, the paragraph \<open>Short blurb.\<close> and the two bullets \<open>* F1\<close> and \<open>* F2\<close>, the
  title is \<open>Demo\<close> and the features are \<open>F1\<close> and \<open>F2\<close>, but the description is the text of
  the bullets, the last paragraph of the cell: under \<^verbatim>\<open>DOTALL\<close> the greedy \<open>.+\<close> meant for
  the heading line runs to the last blank line of the cell.
\<close>

theorem notebook_metadata_demo:
  \<open>notebook_metadata ''demo.ipynb''
     (Some [\<lparr>cell_type = ''markdown'',
             source = [''# Demo\<newline>\<newline>Short blurb.\<newline>\<newline>* F1\<newline>* F2'']\<rparr>])
   = \<lparr>notebook_title = ''Demo'',
       notebook_description = ''* F1\<newline>* F2'',
       notebook_features = [''F1'', ''F2'']\<rparr>\<close>
  by code_simp

subsection \<open>The driver\<close>

lemma output_path_video:
  "output_path_for [''repo''] [''repo'', ''docs''] [''repo'', ''postProcess'', ''video.py'']
   = Inr [''repo'', ''docs'', ''postProcess'', ''video.py.html'']"
  by code_simp

text \<open>
  C7. Without force-rebuild, when the output path of a source file exists on disk (in a
  directory that exists), the body of the loop adds the pair to \<open>generated_files\<close>,
  prints that it skips the file, and does nothing else: no step of the pipeline is
  invoked, and the content of every file, the existing output file among them, is as
  before.
\<close>

theorem main_step_skips_existing:
  assumes "\<not> FORCE_REBUILD cfg"
    and "output_path_for (REPO_ROOT cfg) (DOCS_DIR cfg) file_path = Inr out"
    and "path_exists st out"
    and "parent out \<in> directories st"
  shows "\<exists>st'. main_step cfg ev file_path st = Inr st'
           \<and> generated_files st' = (generated_files st)(file_path \<mapsto> out)
           \<and> calls st' = calls st
           \<and> contents st' = contents st
           \<and> directories st' = directories st
           \<and> printed st' = printed st @ [Skipping out]"
  using assms by (simp add: main_step_def mkdir_parents_def path_exists_def)

theorem main_step_skips_existing_witness:
  "\<exists>st'. main_step cfg_a env_pandoc_fails [''repo'', ''postProcess'', ''video.py''] run_a = Inr st'
      \<and> generated_files st' = (generated_files run_a)
            ([''repo'', ''postProcess'', ''video.py''] \<mapsto> [''repo'', ''docs'', ''postProcess'', ''video.py.html''])
      \<and> calls st' = calls run_a
      \<and> contents st' = contents run_a
      \<and> directories st' = directories run_a
      \<and> printed st' = printed run_a @ [Skipping [''repo'', ''docs'', ''postProcess'', ''video.py.html'']]"
proof -
  have 1: "\<not> FORCE_REBUILD cfg_a" by (simp add: cfg_a_def)
  have 2: "output_path_for (REPO_ROOT cfg_a) (DOCS_DIR cfg_a) [''repo'', ''postProcess'', ''video.py'']
           = Inr [''repo'', ''docs'', ''postProcess'', ''video.py.html'']"
    using output_path_video by (simp add: cfg_a_def DOCS_DIR_def)
  have 3: "path_exists run_a [''repo'', ''docs'', ''postProcess'', ''video.py.html'']"
    by (simp add: path_exists_def run_a_def)
  have 4: "parent [''repo'', ''docs'', ''postProcess'', ''video.py.html''] \<in> directories run_a"
    by (simp add: parent_def run_a_def)
  from main_step_skips_existing [OF 1 2 3 4] show ?thesis .
qed

lemma mkdir_parents_Inr:
  assumes "mkdir_parents d st = Inr st1"
  shows "contents st1 = contents st \<and> generated_files st1 = generated_files st
         \<and> calls st1 = calls st \<and> printed st1 = printed st
         \<and> directories st1 \<subseteq> directories st \<union> {p. length p \<le> length d}"
  using assms by (auto simp: mkdir_parents_def split: if_splits)

text \<open>
  When pandoc exits with a non-zero code, has written nothing, and no file is at the
  output path, the source file is not added to \<open>generated_files\<close> and the failure is
  printed: reading the missing page raises, and the exception is caught.
\<close>

lemma main_step_pandoc_failure_no_output:
  assumes out: "output_path_for (REPO_ROOT cfg) (DOCS_DIR cfg) file_path = Inr out"
    and absent: "contents st out = None" "out \<notin> directories st"
    and fails: "pandoc ev out inp = PandocExit returncode sout serr None" "returncode \<noteq> 0"
    and inp: "prepare ev file_path = Inr inp"
    and step: "main_step cfg ev file_path st = Inr st'"
  shows "generated_files st' = generated_files st
         \<and> ErrorRunningPandoc serr \<in> set (printed st')"
proof -
  from out obtain rel where rel: "file_path = REPO_ROOT cfg @ rel" "rel \<noteq> []"
    "out = DOCS_DIR cfg @ butlast rel @ [last rel @ ''.html'']"
    using output_html_path_Inr by blast
  have dest: "parent out @ [name file_path] \<noteq> out"
  proof
    assume a: "parent out @ [name file_path] = out"
    have p: "parent out = DOCS_DIR cfg @ butlast rel"
      unfolding rel(3) parent_def by (simp add: butlast_append)
    have n: "name file_path = last rel"
      unfolding rel(1) name_def using rel(2) by simp
    from a have "DOCS_DIR cfg @ butlast rel @ [last rel]
                 = DOCS_DIR cfg @ butlast rel @ [last rel @ ''.html'']"
      unfolding p n using rel(3) by simp
    then show False by simp
  qed
  from step out obtain st1 where mk: "mkdir_parents (parent out) st = Inr st1"
    by (auto simp: main_step_def split: sum.splits)
  from mkdir_parents_Inr [OF mk]
  have st1: "contents st1 = contents st" "generated_files st1 = generated_files st"
    and d1: "directories st1 \<subseteq> directories st \<union> {p. length p \<le> length (parent out)}"
    by simp_all
  have "length (parent out) < length out" using rel(3) by (simp add: parent_def)
  with d1 absent have "out \<notin> directories st1" by auto
  with st1 absent have ne: "\<not> path_exists st1 out" by (simp add: path_exists_def)
  have r1: "relative_to out (REPO_ROOT cfg @ [''docs''])
            = Inr (butlast rel @ [last rel @ ''.html''])"
    unfolding rel(3) DOCS_DIR_def by (simp add: relative_to_def)
  have r2: "relative_to file_path (REPO_ROOT cfg) = Inr rel"
    unfolding rel(1) by (rule relative_to_append)
  have proc: "process_file_with_page2html_logic cfg ev file_path out st1 = Inr (ok, s2) \<Longrightarrow>
      \<not> ok \<and> generated_files s2 = generated_files st \<and> ErrorRunningPandoc serr \<in> set (printed s2)"
    for ok s2
    using fails inp st1 absent dest r1 r2
    by (auto simp: process_file_with_page2html_logic_def process_file_body_def run_pandoc_def
                   Let_def read_text_def write_text_def
             split: sum.splits option.splits if_splits)
  from step out mk ne proc show ?thesis
    by (auto simp: main_step_def split: sum.splits prod.splits if_splits)
qed

text \<open>
  C8 fails on the code. In a run with force-rebuild, the page of \<open>postProcess/video.py\<close>
  is still on disk when the loop reaches the file (removing it failed, which \<open>main\<close>
  answers with a warning). Pandoc exits with code 1 and writes nothing. The failure is
  printed, but the stale page is read, post-processed and given the script, and the file
  is added to \<open>generated_files\<close>.
\<close>

theorem main_step_pandoc_failure_stale_output:
  "(case main_step cfg_forced env_pandoc_fails [''repo'', ''postProcess'', ''video.py''] run_a of
      Inl e \<Rightarrow> None
    | Inr st' \<Rightarrow> generated_files st' [''repo'', ''postProcess'', ''video.py''])
     = Some [''repo'', ''docs'', ''postProcess'', ''video.py.html'']
   \<and> (case main_step cfg_forced env_pandoc_fails [''repo'', ''postProcess'', ''video.py''] run_a of
      Inl e \<Rightarrow> []
    | Inr st' \<Rightarrow> printed st')
     = [Processing [''repo'', ''postProcess'', ''video.py''], ErrorRunningPandoc ''pandoc: failed'']
   \<and> (case main_step cfg_forced env_pandoc_fails [''repo'', ''postProcess'', ''video.py''] run_a of
      Inl e \<Rightarrow> []
    | Inr st' \<Rightarrow> calls st')
     = [Prepare [''repo'', ''postProcess'', ''video.py''],
        Render [''repo'', ''postProcess'', ''video.py''],
        PostProcess [''repo'', ''postProcess'', ''video.py''],
        InsertJavascript [''repo'', ''postProcess'', ''video.py'']]"
proof -
  have o: "output_path_for (REPO_ROOT cfg_forced) (DOCS_DIR cfg_forced)
             [''repo'', ''postProcess'', ''video.py'']
           = Inr [''repo'', ''docs'', ''postProcess'', ''video.py.html'']"
    using output_path_video by (simp add: cfg_forced_def DOCS_DIR_def)
  show ?thesis
    apply (simp add: main_step_def o mkdir_parents_def parent_def run_a_def path_exists_def)
    apply (simp add: cfg_forced_def env_pandoc_fails_def process_file_with_page2html_logic_def
        process_file_body_def run_pandoc_def Let_def suffix_def name_def lower_def relative_to_def read_text_def
        write_text_def parent_def insert_javascript_in_html_def split: prod.splits)
    done
qed

subsection \<open>The matcher and the link pass\<close>

lemma rep_greedy_sound:
  "rep_greedy c n k bef rst = Some e \<Longrightarrow>
     \<exists>xs ys. rst = xs @ ys \<and> n \<le> length xs \<and> (\<forall>x \<in> set xs. in_cset c x)
            \<and> k (rev xs @ bef) ys = Some e"
proof (induction rst arbitrary: n bef)
  case Nil
  then show ?case by (auto split: if_splits)
next
  case (Cons x rst)
  show ?case
  proof (cases "in_cset c x \<and> rep_greedy c (n - 1) k (x # bef) rst \<noteq> None")
    case True
    with Cons.prems have "rep_greedy c (n - 1) k (x # bef) rst = Some e" by auto
    from Cons.IH [OF this] obtain xs ys where
      "rst = xs @ ys" "n - 1 \<le> length xs" "\<forall>x \<in> set xs. in_cset c x"
      "k (rev xs @ x # bef) ys = Some e" by auto
    with True show ?thesis
      by (intro exI [of _ "x # xs"] exI [of _ ys]) auto
  next
    case False
    with Cons.prems have "n = 0" "k bef (x # rst) = Some e"
      by (auto split: if_splits option.splits)
    then show ?thesis by (intro exI [of _ "[]"] exI [of _ "x # rst"]) auto
  qed
qed

lemma rep_greedy_exists:
  "n \<le> length xs \<Longrightarrow> \<forall>x \<in> set xs. in_cset c x \<Longrightarrow> k (rev xs @ bef) ys \<noteq> None \<Longrightarrow>
     rep_greedy c n k bef (xs @ ys) \<noteq> None"
proof (induction xs arbitrary: n bef)
  case Nil
  then show ?case by (cases ys) (auto split: option.splits)
next
  case (Cons x xs)
  from Cons.prems have "rep_greedy c (n - 1) k (x # bef) (xs @ ys) \<noteq> None"
    by (intro Cons.IH) auto
  with Cons.prems show ?case by (auto split: option.splits)
qed

lemma rep_greedy_maximal:
  "n \<le> length xs \<Longrightarrow> \<forall>x \<in> set xs. in_cset c x \<Longrightarrow> k (rev xs @ bef) ys = Some r \<Longrightarrow>
   ys = [] \<or> \<not> in_cset c (hd ys) \<Longrightarrow>
     rep_greedy c n k bef (xs @ ys) = Some r"
proof (induction xs arbitrary: n bef)
  case Nil
  then show ?case by (cases ys) (auto split: option.splits)
next
  case (Cons x xs)
  from Cons.prems have "rep_greedy c (n - 1) k (x # bef) (xs @ ys) = Some r"
    by (intro Cons.IH) auto
  with Cons.prems show ?case by (auto split: option.splits)
qed


lemma startswith_iff: "startswith s t \<longleftrightarrow> (\<exists>r. s = t @ r)"
  by (induction s t rule: startswith.induct) auto

lemma endswith_iff: "endswith s t \<longleftrightarrow> (\<exists>r. s = r @ t)"
proof -
  have "endswith s t \<longleftrightarrow> (\<exists>r. rev s = rev t @ r)"
    by (simp add: endswith_def startswith_iff)
  also have "\<dots> \<longleftrightarrow> (\<exists>r. s = r @ t)"
    by (metis rev_append rev_rev_ident)
  finally show ?thesis .
qed

lemma rx_match_Lit_append:
  "rest s = t @ r \<Longrightarrow>
   rx_match (Lit t) k s = k (s\<lparr>consumed := rev t @ consumed s, rest := r\<rparr>)"
  by (simp add: startswith_iff)

lemma rx_match_Rep_exists:
  assumes "rest s = xs @ ys" "n \<le> length xs" "\<forall>x \<in> set xs. in_cset c x"
    and "k (s\<lparr>consumed := rev xs @ consumed s, rest := ys\<rparr>) \<noteq> None"
  shows "rx_match (Rep c n True) k s \<noteq> None"
  using rep_greedy_exists [of n xs c "\<lambda>b r. k (s\<lparr>consumed := b, rest := r\<rparr>)" "consumed s" ys] assms
  by simp

lemma link_rx_unfold:
  \<open>rx_match link_rx k =
     rx_match (Lit ''<a'') (rx_match (Rep (NoneOf ''>'') 1 True)
       (rx_match (Lit ''href="'') (rx_match (Rep (NoneOf ''"'') 1 True)
         (rx_match (Lit ''">'') (rx_match (Rep (NoneOf ''<'') 1 True)
           (rx_match (Lit ''</a>'') k))))))\<close>
  by (simp add: link_rx_def)



lemma rep_lazy_sound:
  "rep_lazy c n k bef rst = Some e \<Longrightarrow>
     \<exists>xs ys. rst = xs @ ys \<and> n \<le> length xs \<and> (\<forall>x \<in> set xs. in_cset c x)
            \<and> k (rev xs @ bef) ys = Some e"
proof (induction rst arbitrary: n bef)
  case Nil
  then show ?case by (auto split: if_splits)
next
  case (Cons x rst)
  show ?case
  proof (cases "n = 0 \<and> k bef (x # rst) \<noteq> None")
    case True
    with Cons.prems have "k bef (x # rst) = Some e" by auto
    with True show ?thesis by (intro exI [of _ "[]"] exI [of _ "x # rst"]) auto
  next
    case False
    with Cons.prems have x: "in_cset c x" and "rep_lazy c (n - 1) k (x # bef) rst = Some e"
      by (auto split: if_splits option.splits)
    from Cons.IH [OF this(2)] obtain xs ys where
      "rst = xs @ ys" "n - 1 \<le> length xs" "\<forall>x \<in> set xs. in_cset c x"
      "k (rev xs @ x # bef) ys = Some e" by auto
    with x show ?thesis
      by (intro exI [of _ "x # xs"] exI [of _ ys]) auto
  qed
qed

lemma rx_match_sound:
  "rx_match r k s = Some e \<Longrightarrow> \<exists>w s'. w \<in> lang r \<and> rest s = w @ rest s' \<and> k s' = Some e"
proof (induction r arbitrary: k s e)
  case (Chars c)
  then obtain x xs where "rest s = x # xs" "in_cset c x"
      "k (s\<lparr>consumed := x # consumed s, rest := xs\<rparr>) = Some e"
    by (auto split: list.splits if_splits)
  then show ?case
    by (intro exI [of _ "[x]"] exI [of _ "s\<lparr>consumed := x # consumed s, rest := xs\<rparr>"]) simp
next
  case (Lit t)
  then obtain r where "rest s = t @ r" "k (s\<lparr>consumed := rev t @ consumed s, rest := r\<rparr>) = Some e"
    by (auto simp: startswith_iff split: if_splits)
  then show ?case
    by (intro exI [of _ t] exI [of _ "s\<lparr>consumed := rev t @ consumed s, rest := r\<rparr>"]) simp
next
  case (Rep c n g)
  have "\<exists>xs ys. rest s = xs @ ys \<and> n \<le> length xs \<and> (\<forall>x \<in> set xs. in_cset c x)
            \<and> k (s\<lparr>consumed := rev xs @ consumed s, rest := ys\<rparr>) = Some e"
  proof (cases g)
    case True
    with Rep show ?thesis
      using rep_greedy_sound [of c n "\<lambda>b r. k (s\<lparr>consumed := b, rest := r\<rparr>)" "consumed s" "rest s" e]
      by simp
  next
    case False
    with Rep show ?thesis
      using rep_lazy_sound [of c n "\<lambda>b r. k (s\<lparr>consumed := b, rest := r\<rparr>)" "consumed s" "rest s" e]
      by simp
  qed
  then obtain xs ys where "rest s = xs @ ys" "n \<le> length xs" "\<forall>x \<in> set xs. in_cset c x"
    "k (s\<lparr>consumed := rev xs @ consumed s, rest := ys\<rparr>) = Some e" by blast
  then show ?case
    by (intro exI [of _ xs] exI [of _ "s\<lparr>consumed := rev xs @ consumed s, rest := ys\<rparr>"]) simp
next
  case (Seq a b)
  from Seq.prems have "rx_match a (rx_match b k) s = Some e" by simp
  from Seq.IH(1) [OF this] obtain u s1 where
    u: "u \<in> lang a" "rest s = u @ rest s1" and "rx_match b k s1 = Some e" by blast
  from Seq.IH(2) [OF this(3)] obtain v s2 where
    v: "v \<in> lang b" "rest s1 = v @ rest s2" "k s2 = Some e" by blast
  from u v show ?case
    by (intro exI [of _ "u @ v"] exI [of _ s2]) auto
next
  case (Alt a b)
  show ?case
  proof (cases "rx_match a k s")
    case None
    with Alt.prems have "rx_match b k s = Some e" by simp
    from Alt.IH(2) [OF this] show ?thesis by auto
  next
    case (Some r)
    with Alt.prems have "rx_match a k s = Some e" by simp
    from Alt.IH(1) [OF this] show ?thesis by auto
  qed
next
  case (Group i a)
  let ?k = "\<lambda>s'. k (s'\<lparr>groups := (i, take (length (rest s) - length (rest s')) (rest s)) # groups s'\<rparr>)"
  from Group.prems have "rx_match a ?k s = Some e" by simp
  from Group.IH [OF this] obtain w s1 where
    "w \<in> lang a" "rest s = w @ rest s1" "?k s1 = Some e" by blast
  then show ?case
    by (intro exI [of _ w]
              exI [of _ "s1\<lparr>groups := (i, take (length (rest s) - length (rest s1)) (rest s)) # groups s1\<rparr>"])
       simp
next
  case (Ahead a)
  from Ahead.prems obtain s1 :: mstate where "k (s\<lparr>groups := groups s1\<rparr>) = Some e"
    by (auto split: option.splits)
  then show ?case
    by (intro exI [of _ "[]"] exI [of _ "s\<lparr>groups := groups s1\<rparr>"]) simp
next
  case Bol
  then have "k s = Some e" by (auto split: if_splits)
  then show ?case by (intro exI [of _ "[]"] exI [of _ s]) simp
next
  case Eol
  then have "k s = Some e" by (auto split: if_splits)
  then show ?case by (intro exI [of _ "[]"] exI [of _ s]) simp
next
  case EolS
  then have "k s = Some e" by (auto split: if_splits)
  then show ?case by (intro exI [of _ "[]"] exI [of _ s]) simp
next
  case EndZ
  then have "k s = Some e" by (auto split: if_splits)
  then show ?case by (intro exI [of _ "[]"] exI [of _ s]) simp
qed



lemma lang_Seq_LitE:
  assumes "w \<in> lang (Seq (Lit t) r)"
  obtains v where "w = t @ v" "v \<in> lang r"
  using assms by auto

lemma lang_Seq_RepE:
  assumes "w \<in> lang (Seq (Rep c n g) r)"
  obtains u v where "w = u @ v" "n \<le> length u" "\<forall>x \<in> set u. in_cset c x" "v \<in> lang r"
  using assms by auto

lemma link_rx_sound:
  assumes "rx_match link_rx Some s = Some e"
  shows \<open>\<exists>X Y Z. rest s = ''<a'' @ X @ ''href="'' @ Y @ ''">'' @ Z @ ''</a>'' @ rest e
           \<and> X \<noteq> [] \<and> Y \<noteq> [] \<and> CHR 0x22 \<notin> set Y \<and> Z \<noteq> [] \<and> CHR ''<'' \<notin> set Z\<close>
proof -
  from rx_match_sound [OF assms] obtain w where w: "w \<in> lang link_rx" "rest s = w @ rest e"
    by auto
  from w(1) have m0: \<open>w \<in> lang (Seq (Lit ''<a'') (Seq (Rep (NoneOf ''>'') 1 True)
       (Seq (Lit ''href="'') (Seq (Rep (NoneOf ''"'') 1 True)
         (Seq (Lit ''">'') (Seq (Rep (NoneOf ''<'') 1 True) (Lit ''</a>'')))))))\<close>
    by (simp only: link_rx_def seq.simps)
  from m0 obtain w1 where 1: "w = ''<a'' @ w1"
    and m1: \<open>w1 \<in> lang (Seq (Rep (NoneOf ''>'') 1 True)
       (Seq (Lit ''href="'') (Seq (Rep (NoneOf ''"'') 1 True)
         (Seq (Lit ''">'') (Seq (Rep (NoneOf ''<'') 1 True) (Lit ''</a>''))))))\<close>
    by (rule lang_Seq_LitE)
  from m1 obtain X w2 where 2: "w1 = X @ w2" "1 \<le> length X" \<open>\<forall>x \<in> set X. in_cset (NoneOf ''>'') x\<close>
    and m2: \<open>w2 \<in> lang (Seq (Lit ''href="'') (Seq (Rep (NoneOf ''"'') 1 True)
         (Seq (Lit ''">'') (Seq (Rep (NoneOf ''<'') 1 True) (Lit ''</a>'')))))\<close>
    by (rule lang_Seq_RepE)
  from m2 obtain w3 where 3: \<open>w2 = ''href="'' @ w3\<close>
    and m3: \<open>w3 \<in> lang (Seq (Rep (NoneOf ''"'') 1 True)
         (Seq (Lit ''">'') (Seq (Rep (NoneOf ''<'') 1 True) (Lit ''</a>''))))\<close>
    by (rule lang_Seq_LitE)
  from m3 obtain Y w4 where 4: "w3 = Y @ w4" "1 \<le> length Y" \<open>\<forall>x \<in> set Y. in_cset (NoneOf ''"'') x\<close>
    and m4: \<open>w4 \<in> lang (Seq (Lit ''">'') (Seq (Rep (NoneOf ''<'') 1 True) (Lit ''</a>'')))\<close>
    by (rule lang_Seq_RepE)
  from m4 obtain w5 where 5: \<open>w4 = ''">'' @ w5\<close>
    and m5: \<open>w5 \<in> lang (Seq (Rep (NoneOf ''<'') 1 True) (Lit ''</a>''))\<close>
    by (rule lang_Seq_LitE)
  from m5 obtain Z w6 where 6: "w5 = Z @ w6" "1 \<le> length Z" \<open>\<forall>x \<in> set Z. in_cset (NoneOf ''<'') x\<close>
    and m6: "w6 \<in> lang (Lit ''</a>'')"
    by (rule lang_Seq_RepE)
  from m6 have 7: "w6 = ''</a>''" by simp
  have \<open>rest s = ''<a'' @ X @ ''href="'' @ Y @ ''">'' @ Z @ ''</a>'' @ rest e\<close>
    unfolding w(2) 1 2(1) 3 4(1) 5 6(1) 7 by simp
  moreover from 2(2) have "X \<noteq> []" by (cases X) simp_all
  moreover from 4(2) have "Y \<noteq> []" by (cases Y) simp_all
  moreover from 4(3) have "CHR 0x22 \<notin> set Y" by auto
  moreover from 6(2) have "Z \<noteq> []" by (cases Z) simp_all
  moreover from 6(3) have "CHR ''<'' \<notin> set Z" by auto
  ultimately show ?thesis by (intro exI [of _ X] exI [of _ Y] exI [of _ Z] conjI)
qed


lemma length_ge_1: "xs \<noteq> [] \<Longrightarrow> 1 \<le> length xs"
  by (cases xs) simp_all

lemma link_rx_exists:
  assumes r: \<open>rest s = ''<a'' @ X @ ''href="'' @ Y @ ''">'' @ Z @ ''</a>'' @ r\<close>
    and X: "X \<noteq> []" "CHR ''>'' \<notin> set X"
    and Y: "Y \<noteq> []" "CHR 0x22 \<notin> set Y"
    and Z: "Z \<noteq> []" "CHR ''<'' \<notin> set Z"
  shows "rx_match link_rx Some s \<noteq> None"
proof -
  have 7: "rx_match (Lit ''</a>'') Some t \<noteq> None" if "rest t = ''</a>'' @ r" for t :: mstate
    by (simp only: rx_match_Lit_append [OF that]) simp
  have 6: "rx_match (Rep (NoneOf ''<'') 1 True) (rx_match (Lit ''</a>'') Some) t \<noteq> None"
    if "rest t = Z @ ''</a>'' @ r" for t :: mstate
  proof (rule rx_match_Rep_exists [OF that])
    show "1 \<le> length Z" using Z(1) by (rule length_ge_1)
    show "\<forall>x \<in> set Z. in_cset (NoneOf ''<'') x" using Z(2) by auto
    show "rx_match (Lit ''</a>'') Some (t\<lparr>consumed := rev Z @ consumed t, rest := ''</a>'' @ r\<rparr>) \<noteq> None"
      by (rule 7) simp
  qed
  have 5: \<open>rx_match (Lit ''">'') (rx_match (Rep (NoneOf ''<'') 1 True) (rx_match (Lit ''</a>'') Some)) t \<noteq> None\<close>
    if \<open>rest t = ''">'' @ Z @ ''</a>'' @ r\<close> for t :: mstate
    by (simp only: rx_match_Lit_append [OF that]) (rule 6, simp)
  have 4: \<open>rx_match (Rep (NoneOf ''"'') 1 True)
        (rx_match (Lit ''">'') (rx_match (Rep (NoneOf ''<'') 1 True) (rx_match (Lit ''</a>'') Some))) t \<noteq> None\<close>
    if \<open>rest t = Y @ ''">'' @ Z @ ''</a>'' @ r\<close> for t :: mstate
  proof (rule rx_match_Rep_exists [OF that])
    show "1 \<le> length Y" using Y(1) by (rule length_ge_1)
    show \<open>\<forall>x \<in> set Y. in_cset (NoneOf ''"'') x\<close> using Y(2) by auto
    show \<open>rx_match (Lit ''">'') (rx_match (Rep (NoneOf ''<'') 1 True) (rx_match (Lit ''</a>'') Some))
            (t\<lparr>consumed := rev Y @ consumed t, rest := ''">'' @ Z @ ''</a>'' @ r\<rparr>) \<noteq> None\<close>
      by (rule 5) simp
  qed
  have 3: \<open>rx_match (Lit ''href="'') (rx_match (Rep (NoneOf ''"'') 1 True)
        (rx_match (Lit ''">'') (rx_match (Rep (NoneOf ''<'') 1 True) (rx_match (Lit ''</a>'') Some)))) t \<noteq> None\<close>
    if \<open>rest t = ''href="'' @ Y @ ''">'' @ Z @ ''</a>'' @ r\<close> for t :: mstate
    by (simp only: rx_match_Lit_append [OF that]) (rule 4, simp)
  have 2: \<open>rx_match (Rep (NoneOf ''>'') 1 True) (rx_match (Lit ''href="'') (rx_match (Rep (NoneOf ''"'') 1 True)
        (rx_match (Lit ''">'') (rx_match (Rep (NoneOf ''<'') 1 True) (rx_match (Lit ''</a>'') Some))))) t \<noteq> None\<close>
    if \<open>rest t = X @ ''href="'' @ Y @ ''">'' @ Z @ ''</a>'' @ r\<close> for t :: mstate
  proof (rule rx_match_Rep_exists [OF that])
    show "1 \<le> length X" using X(1) by (rule length_ge_1)
    show \<open>\<forall>x \<in> set X. in_cset (NoneOf ''>'') x\<close> using X(2) by auto
    show \<open>rx_match (Lit ''href="'') (rx_match (Rep (NoneOf ''"'') 1 True)
        (rx_match (Lit ''">'') (rx_match (Rep (NoneOf ''<'') 1 True) (rx_match (Lit ''</a>'') Some))))
            (t\<lparr>consumed := rev X @ consumed t, rest := ''href="'' @ Y @ ''">'' @ Z @ ''</a>'' @ r\<rparr>) \<noteq> None\<close>
      by (rule 3) simp
  qed
  show ?thesis
    by (simp only: link_rx_unfold rx_match_Lit_append [OF r]) (rule 2, simp)
qed


lemma filter_quote_Nil: "CHR 0x22 \<notin> set xs \<Longrightarrow> filter ((=) (CHR 0x22)) xs = []"
  by (induction xs) auto

lemma first_occurrence_unique:
  "x \<notin> set as \<Longrightarrow> x \<notin> set as' \<Longrightarrow> as @ x # bs = as' @ x # bs' \<Longrightarrow> as = as' \<and> bs = bs'"
proof (induction as arbitrary: as')
  case Nil
  then show ?case by (cases as') auto
next
  case (Cons a as)
  then show ?case by (cases as') auto
qed

lemma anchor_decomposition:
  assumes eq: \<open>''<a href="'' @ H @ ''">'' @ T @ ''</a>''
               = ''<a'' @ X @ ''href="'' @ Y @ ''">'' @ Z @ ''</a>'' @ E\<close>
    and H: "CHR 0x22 \<notin> set H" and T: "CHR 0x22 \<notin> set T" "CHR ''<'' \<notin> set T"
    and Y: "CHR 0x22 \<notin> set Y" and Z: "CHR ''<'' \<notin> set Z"
  shows "E = []"
proof -
  let ?q = "CHR 0x22"
  let ?f = "\<lambda>s. length (filter ((=) ?q) s)"
  from eq have \<open>?f (''<a href="'' @ H @ ''">'' @ T @ ''</a>'')
               = ?f (''<a'' @ X @ ''href="'' @ Y @ ''">'' @ Z @ ''</a>'' @ E)\<close>
    by (rule arg_cong)
  then have "?f X + ?f Z + ?f E = 0"
    by (simp add: filter_quote_Nil H T Y)
  then have "filter ((=) ?q) X = []" "filter ((=) ?q) Z = []" "filter ((=) ?q) E = []"
    by simp_all
  then have q: "?q \<notin> set X" "?q \<notin> set Z" "?q \<notin> set E"
    by (auto simp: filter_empty_conv)
  have c1: "?q \<notin> set ''<a href=''" by simp
  have c2: "?q \<notin> set (''<a'' @ X @ ''href='')" using q by simp
  from eq have e1: \<open>''<a href='' @ ?q # (H @ ?q # (''>'' @ T @ ''</a>''))
                = (''<a'' @ X @ ''href='') @ ?q # (Y @ ?q # (''>'' @ Z @ ''</a>'' @ E))\<close>
    by simp
  from first_occurrence_unique [OF c1 c2 e1]
  have e2: "H @ ?q # (''>'' @ T @ ''</a>'') = Y @ ?q # (''>'' @ Z @ ''</a>'' @ E)"
    by (rule conjunct2)
  from first_occurrence_unique [OF H Y e2]
  have "''>'' @ T @ ''</a>'' = ''>'' @ Z @ ''</a>'' @ E"
    by (rule conjunct2)
  then have e3: "T @ CHR ''<'' # ''/a>'' = Z @ CHR ''<'' # (''/a>'' @ E)" by simp
  from first_occurrence_unique [OF T(2) Z e3]
  have "''/a>'' = ''/a>'' @ E"
    by (rule conjunct2)
  then show ?thesis by simp
qed

lemma match_here_link:
  assumes H: "H \<noteq> []" "CHR 0x22 \<notin> set H"
    and T: "T \<noteq> []" "CHR ''<'' \<notin> set T" "CHR 0x22 \<notin> set T"
  shows \<open>\<exists>g. match_here link_rx bef (''<a href="'' @ H @ ''">'' @ T @ ''</a>'')
             = Some \<lparr>whole = ''<a href="'' @ H @ ''">'' @ T @ ''</a>'', grps = g, after = []\<rparr>\<close>
proof -
  let ?S = \<open>''<a href="'' @ H @ ''">'' @ T @ ''</a>''\<close>
  let ?s = "\<lparr>consumed = bef, rest = ?S, groups = []\<rparr>"
  have \<open>rest ?s = ''<a'' @ '' '' @ ''href="'' @ H @ ''">'' @ T @ ''</a>'' @ []\<close> by simp
  then have "rx_match link_rx Some ?s \<noteq> None"
    by (rule link_rx_exists) (use H T in simp_all)
  then obtain e where e: "rx_match link_rx Some ?s = Some e" by blast
  from link_rx_sound [OF e] obtain X Y Z where
    d: \<open>rest ?s = ''<a'' @ X @ ''href="'' @ Y @ ''">'' @ Z @ ''</a>'' @ rest e\<close>
    and "CHR 0x22 \<notin> set Y" "CHR ''<'' \<notin> set Z" by blast
  have "rest e = []"
  proof (rule anchor_decomposition)
    show \<open>?S = ''<a'' @ X @ ''href="'' @ Y @ ''">'' @ Z @ ''</a>'' @ rest e\<close> using d by simp
  qed fact+
  then have "match_here link_rx bef ?S = Some \<lparr>whole = ?S, grps = groups e, after = []\<rparr>"
    unfolding match_here_def e by simp
  then show ?thesis by blast
qed


lemma rep_greedy_maximal_eq:
  assumes "n \<le> length xs" "\<forall>x \<in> set xs. in_cset c x" "ys = [] \<or> \<not> in_cset c (hd ys)"
    and "k (rev xs @ bef) ys \<noteq> None"
  shows "rep_greedy c n k bef (xs @ ys) = k (rev xs @ bef) ys"
proof -
  from assms(4) obtain r where r: "k (rev xs @ bef) ys = Some r" by blast
  have "rep_greedy c n k bef (xs @ ys) = Some r"
    using assms(1,2) r assms(3) by (rule rep_greedy_maximal)
  with r show ?thesis by simp
qed

lemma match_here_Some:
  assumes "rx_match r Some \<lparr>consumed = bef, rest = w @ t, groups = []\<rparr> = Some e" and "rest e = t"
  shows "match_here r bef (w @ t) = Some \<lparr>whole = w, grps = groups e, after = t\<rparr>"
  using assms by (simp add: match_here_def)

lemma match_here_href_fail:
  \<open>\<not> startswith xs ''href="'' \<Longrightarrow> match_here href_rx bef xs = None\<close>
  by (simp add: match_here_def href_rx_def)

lemma match_here_href:
  assumes "H \<noteq> []" "CHR 0x22 \<notin> set H"
  shows \<open>match_here href_rx bef (''href="'' @ H @ CHR 0x22 # zs)
           = Some \<lparr>whole = ''href="'' @ H @ ''"'', grps = [(1, H)], after = zs\<rparr>\<close>
proof -
  have R: \<open>rep_greedy (NoneOf ''"'') (Suc 0) k b (H @ CHR 0x22 # zs) = k (rev H @ b) (CHR 0x22 # zs)\<close>
    if "k (rev H @ b) (CHR 0x22 # zs) \<noteq> None" for k b
  proof (rule rep_greedy_maximal_eq)
    show "Suc 0 \<le> length H" using length_ge_1 [OF assms(1)] by simp
    show \<open>\<forall>x \<in> set H. in_cset (NoneOf ''"'') x\<close> using assms(2) by auto
    show \<open>CHR 0x22 # zs = [] \<or> \<not> in_cset (NoneOf ''"'') (hd (CHR 0x22 # zs))\<close> by simp
    show "k (rev H @ b) (CHR 0x22 # zs) \<noteq> None" by (rule that)
  qed
  have \<open>rx_match href_rx Some \<lparr>consumed = bef, rest = (''href="'' @ H @ ''"'') @ zs, groups = []\<rparr>
        = Some \<lparr>consumed = CHR 0x22 # rev H @ rev ''href="'' @ bef, rest = zs, groups = [(1, H)]\<rparr>\<close>
    by (simp add: href_rx_def R)
  from match_here_Some [OF this] show ?thesis by simp
qed


lemma search_from_hit: "match_here r bef xs = Some mt \<Longrightarrow> search_from r bef xs = Some mt"
  by (cases xs) simp_all

lemma search_from_later:
  "match_here r (rev xs @ bef) ys \<noteq> None \<Longrightarrow> search_from r bef (xs @ ys) \<noteq> None"
proof (induction xs arbitrary: bef)
  case Nil
  then show ?case by (cases ys) auto
next
  case (Cons x xs)
  from Cons.prems have "search_from r (x # bef) (xs @ ys) \<noteq> None"
    by (intro Cons.IH) simp
  then show ?case by (auto split: option.splits)
qed

lemma re_search_href_anchor:
  assumes "H \<noteq> []" "CHR 0x22 \<notin> set H"
  shows \<open>re_search href_rx (''<a href="'' @ H @ ''">'' @ T @ ''</a>'')
           = Some \<lparr>whole = ''href="'' @ H @ ''"'', grps = [(1, H)], after = ''>'' @ T @ ''</a>''\<rparr>\<close>
proof -
  have \<open>search_from href_rx '' a<'' (''href="'' @ H @ CHR 0x22 # (''>'' @ T @ ''</a>''))
        = Some \<lparr>whole = ''href="'' @ H @ ''"'', grps = [(1, H)], after = ''>'' @ T @ ''</a>''\<rparr>\<close>
    by (rule search_from_hit) (rule match_here_href [OF assms])
  then show ?thesis
    by (simp add: re_search_def match_here_href_fail)
qed

lemma re_search_ext:
  assumes "e \<in> set [''.c'', ''.h'', ''.py'', ''.sh'', ''.md'']" and "endswith href e"
  shows "re_search ext_rx href \<noteq> None"
proof -
  from assms(2) obtain xs where href: "href = xs @ e" by (auto simp: endswith_iff)
  from assms(1) have "match_here ext_rx (rev xs @ []) e \<noteq> None"
    by (auto simp: match_here_def ext_rx_def)
  then show ?thesis unfolding re_search_def href by (rule search_from_later)
qed

lemma sub_from_skip:
  "sub_from r f (length xs) bef (xs @ ys) = sub_from r f 0 (rev xs @ bef) ys"
  by (induction xs arbitrary: bef) simp_all

lemma sub_from_match:
  assumes "match_here r bef (x # w @ ys) = Some mt" "whole mt = x # w" "f mt = Inr t"
  shows "sub_from r f 0 bef (x # w @ ys) = map_sum id ((@) t) (sub_from r f 0 (rev w @ x # bef) ys)"
  using assms by (simp add: sub_from_skip)

lemma match_here_href_noquote: "CHR 0x22 \<notin> set xs \<Longrightarrow> match_here href_rx bef xs = None"
  by (rule match_here_href_fail) (auto simp: startswith_iff)

lemma sub_from_href_noquote:
  "CHR 0x22 \<notin> set xs \<Longrightarrow> sub_from href_rx f 0 bef xs = Inr xs"
  by (induction xs arbitrary: bef) (simp_all add: match_here_href_noquote)

lemma re_sub_href_anchor:
  assumes "H \<noteq> []" "CHR 0x22 \<notin> set H" "CHR 0x22 \<notin> set T"
  shows \<open>re_sub href_rx (\<lambda>mt. Inr t) (''<a href="'' @ H @ ''">'' @ T @ ''</a>'')
           = Inr (''<a '' @ t @ ''>'' @ T @ ''</a>'')\<close>
proof -
  let ?f = "\<lambda>mt :: rmatch. (Inr t :: py_error + string)"
  let ?w = \<open>''ref="'' @ H @ ''"''\<close>
  let ?ys = "''>'' @ T @ ''</a>''"
  have m: \<open>match_here href_rx '' a<'' (CHR ''h'' # ?w @ ?ys)
           = Some \<lparr>whole = ''href="'' @ H @ ''"'', grps = [(1, H)], after = ?ys\<rparr>\<close>
    using match_here_href [OF assms(1,2), of "'' a<''" ?ys] by simp
  have "sub_from href_rx ?f 0 '' a<'' (CHR ''h'' # ?w @ ?ys)
        = map_sum id ((@) t) (sub_from href_rx ?f 0 (rev ?w @ CHR ''h'' # '' a<'') ?ys)"
    by (rule sub_from_match [OF m]) simp_all
  also have "sub_from href_rx ?f 0 (rev ?w @ CHR ''h'' # '' a<'') ?ys = Inr ?ys"
    by (rule sub_from_href_noquote) (use assms(3) in simp)
  finally have "sub_from href_rx ?f 0 '' a<'' (CHR ''h'' # ?w @ ?ys) = Inr (t @ ?ys)"
    by simp
  then show ?thesis
    by (simp add: re_sub_def match_here_href_fail)
qed


lemma startswith_https: "startswith s ''https'' \<Longrightarrow> startswith s ''http''"
  by (auto simp: startswith_iff)

lemma fix_doc_links_anchor:
  assumes H: "H \<noteq> []" "CHR 0x22 \<notin> set H" "CHR 0x5C \<notin> set H"
    and T: "CHR 0x22 \<notin> set T"
    and mt: \<open>whole mt = ''<a href="'' @ H @ ''">'' @ T @ ''</a>''\<close>
  shows \<open>fix_doc_links esc mt =
     Inr (if startswith H ''http'' \<or> startswith H ''#'' \<or> endswith H ''.html''
          then ''<a href="'' @ H @ ''">'' @ T @ ''</a>''
          else if re_search ext_rx H \<noteq> None
          then ''<a href="'' @ (H @ ''.html'') @ ''">'' @ T @ ''</a>''
          else ''<a href="'' @ H @ ''">'' @ T @ ''</a>'')\<close>
proof -
  have g: "group mt 0 = whole mt" by (simp add: group_def)
  have g1: \<open>group \<lparr>whole = ''href="'' @ H @ ''"'', grps = [(1, H)], after = ''>'' @ T @ ''</a>''\<rparr> 1 = H\<close>
    by (simp add: group_def)
  have t: \<open>CHR 0x5C \<notin> set (''href="'' @ H @ ''.html"'')\<close> using H(3) by simp
  have sub: \<open>re_sub_template esc href_rx (''href="'' @ H @ ''.html"'')
               (''<a href="'' @ H @ ''">'' @ T @ ''</a>'')
             = Inr (''<a href="'' @ (H @ ''.html'') @ ''">'' @ T @ ''</a>'')\<close>
    unfolding re_sub_template_def using t re_sub_href_anchor [OF H(1,2) T]
    by (simp del: set_append)
  show ?thesis
    unfolding fix_doc_links_def Let_def g mt re_search_href_anchor [OF H(1,2)] option.case g1 sub
    using startswith_https [of H] by auto
qed

lemma match_here_link_Nil: "match_here link_rx bef [] = None"
  by (simp add: match_here_def link_rx_def)

lemma fix_links_anchor_eq:
  assumes H: "H \<noteq> []" "CHR 0x22 \<notin> set H" "CHR 0x5C \<notin> set H"
    and T: "T \<noteq> []" "CHR ''<'' \<notin> set T" "CHR 0x22 \<notin> set T"
  shows \<open>fix_links esc (''<a href="'' @ H @ ''">'' @ T @ ''</a>'') =
     Inr (if startswith H ''http'' \<or> startswith H ''#'' \<or> endswith H ''.html''
          then ''<a href="'' @ H @ ''">'' @ T @ ''</a>''
          else if re_search ext_rx H \<noteq> None
          then ''<a href="'' @ (H @ ''.html'') @ ''">'' @ T @ ''</a>''
          else ''<a href="'' @ H @ ''">'' @ T @ ''</a>'')\<close>
    (is "fix_links esc ?S = Inr ?R")
proof -
  let ?w = \<open>''a href="'' @ H @ ''">'' @ T @ ''</a>''\<close>
  from match_here_link [OF H(1,2) T, of "[]"] obtain g where
    "match_here link_rx [] ?S = Some \<lparr>whole = ?S, grps = g, after = []\<rparr>" by blast
  then have m: "match_here link_rx [] (CHR ''<'' # ?w @ [])
                = Some \<lparr>whole = ?S, grps = g, after = []\<rparr>" by simp
  have f: "fix_doc_links esc \<lparr>whole = ?S, grps = g, after = []\<rparr> = Inr ?R"
    by (rule fix_doc_links_anchor [OF H T(3)]) simp
  have "sub_from link_rx (fix_doc_links esc) 0 [] (CHR ''<'' # ?w @ [])
        = map_sum id ((@) ?R) (sub_from link_rx (fix_doc_links esc) 0 (rev ?w @ CHR ''<'' # []) [])"
  proof (rule sub_from_match [where mt = "\<lparr>whole = ?S, grps = g, after = []\<rparr>"])
    show "match_here link_rx [] (CHR ''<'' # ?w @ [])
          = Some \<lparr>whole = ?S, grps = g, after = []\<rparr>" by (rule m)
    show "whole \<lparr>whole = ?S, grps = g, after = []\<rparr> = CHR ''<'' # ?w" by simp
    show "fix_doc_links esc \<lparr>whole = ?S, grps = g, after = []\<rparr> = Inr ?R" by (rule f)
  qed
  also have "\<dots> = Inr ?R" by (simp only: sub_from.simps match_here_link_Nil) simp
  finally show ?thesis by (simp add: fix_links_def re_sub_def)
qed

text \<open>
  The anchors that the pass handles as its comments say. For a page that is one anchor
  \<open><a href="H">text</a>\<close> whose \<open>href\<close> is its only attribute and whose text holds no
  tag, with \<open>H\<close> and the text not empty and free of quotes and \<open>H\<close> free of backslashes:
  when \<open>H\<close> starts with \<open>http\<close> or \<open>#\<close> or ends in \<open>.html\<close> the pass leaves the anchor
  unchanged; otherwise, when \<open>H\<close> ends in \<open>.c\<close>, \<open>.h\<close>, \<open>.py\<close>, \<open>.sh\<close> or \<open>.md\<close>, the
  pass appends \<open>.html\<close> to the \<open>href\<close>.
\<close>

lemma fix_links_plain_anchor:
  assumes "href \<noteq> []" "CHR 0x22 \<notin> set href" "CHR 0x5C \<notin> set href"
    and "text \<noteq> []" "CHR ''<'' \<notin> set text" "CHR 0x22 \<notin> set text"
  shows \<open>(startswith href ''http'' \<or> startswith href ''#'' \<or> endswith href ''.html'' \<longrightarrow>
            fix_links esc (''<a href="'' @ href @ ''">'' @ text @ ''</a>'')
              = Inr (''<a href="'' @ href @ ''">'' @ text @ ''</a>''))
         \<and> (\<not> startswith href ''http'' \<and> \<not> startswith href ''#'' \<and> \<not> endswith href ''.html''
            \<and> (\<exists>e \<in> set [''.c'', ''.h'', ''.py'', ''.sh'', ''.md'']. endswith href e) \<longrightarrow>
            fix_links esc (''<a href="'' @ href @ ''">'' @ text @ ''</a>'')
              = Inr (''<a href="'' @ href @ ''.html'' @ ''">'' @ text @ ''</a>''))\<close>
proof (intro conjI impI)
  assume "startswith href ''http'' \<or> startswith href ''#'' \<or> endswith href ''.html''"
  then show \<open>fix_links esc (''<a href="'' @ href @ ''">'' @ text @ ''</a>'')
              = Inr (''<a href="'' @ href @ ''">'' @ text @ ''</a>'')\<close>
    unfolding fix_links_anchor_eq [OF assms] by simp
next
  assume a: "\<not> startswith href ''http'' \<and> \<not> startswith href ''#'' \<and> \<not> endswith href ''.html''
            \<and> (\<exists>e \<in> set [''.c'', ''.h'', ''.py'', ''.sh'', ''.md'']. endswith href e)"
  then obtain e where "e \<in> set [''.c'', ''.h'', ''.py'', ''.sh'', ''.md'']" "endswith href e"
    by blast
  then have "re_search ext_rx href \<noteq> None" by (rule re_search_ext)
  with a show \<open>fix_links esc (''<a href="'' @ href @ ''">'' @ text @ ''</a>'')
              = Inr (''<a href="'' @ href @ ''.html'' @ ''">'' @ text @ ''</a>'')\<close>
    unfolding fix_links_anchor_eq [OF assms] by simp
qed

text \<open>The four anchors that the specification gives as examples.\<close>

lemma fix_links_plain_anchor_examples:
  \<open>fix_links reject_escapes ''<a href="util.py">x</a>'' = Inr ''<a href="util.py.html">x</a>''
   \<and> fix_links reject_escapes ''<a href="https://example.com/util.py">x</a>''
       = Inr ''<a href="https://example.com/util.py">x</a>''
   \<and> fix_links reject_escapes ''<a href="#sec">x</a>'' = Inr ''<a href="#sec">x</a>''
   \<and> fix_links reject_escapes ''<a href="util.py.html">x</a>'' = Inr ''<a href="util.py.html">x</a>''\<close>
  using fix_links_plain_anchor [of "''util.py''" "''x''" reject_escapes]
    fix_links_plain_anchor [of "''https://example.com/util.py''" "''x''" reject_escapes]
    fix_links_plain_anchor [of "''#sec''" "''x''" reject_escapes]
    fix_links_plain_anchor [of "''util.py.html''" "''x''" reject_escapes]
  by (simp add: endswith_def)

text \<open>
  C4 fails on the code. The pass looks at the matches of
  \<^verbatim>\<open><a[^>]+href="[^"]+">[^<]+</a>\<close> only, and inside a match it takes the first text
  \<^verbatim>\<open>href="..."\<close> for the \<open>href\<close> and replaces every such text.

  \<^item> An anchor with an attribute after \<open>href\<close> is no match, since the pattern asks for
    \<open>">\<close> right after the value of \<open>href\<close>: the anchor
    \<open><a href="util.py" title="Utility">x</a>\<close>, whose \<open>href\<close> is a relative path ending in
    \<open>.py\<close>, stays as it is.
  \<^item> An anchor with a tag inside its text is no match either:
    \<open><a href="util.py"><code>util.py</code></a>\<close> stays as it is.
  \<^item> In \<open><a data-href="a.md" href="https://example.com/">x</a>\<close> the first text
    \<^verbatim>\<open>href="..."\<close> is the end of the attribute \<open>data-href\<close>: the anchor, whose \<open>href\<close>
    starts with \<open>https\<close>, is rewritten, and its \<open>href\<close> becomes \<open>a.md.html\<close>.
\<close>

theorem fix_links_misses_anchor:
  \<open>fix_links reject_escapes ''<a href="util.py" title="Utility">x</a>''
       = Inr ''<a href="util.py" title="Utility">x</a>''
   \<and> fix_links reject_escapes ''<a href="util.py"><code>util.py</code></a>''
       = Inr ''<a href="util.py"><code>util.py</code></a>''
   \<and> fix_links reject_escapes ''<a data-href="a.md" href="https://example.com/">x</a>''
       = Inr ''<a data-href="a.md.html" href="a.md.html">x</a>''\<close>
  by code_simp

end
